theory Spec2Isabelle
  imports Main "HOL-Library.Sublist" "HOL-Library.Product_Lexorder"
begin

section \<open>Data model (the SQLAlchemy tables of app.py)\<close>

text \<open>
  Dates are Python \<open>date\<close> values; the model uses the proleptic Gregorian ordinal
  (\<open>date.toordinal()\<close>), so \<open>d + timedelta(days=i)\<close> is \<open>d + i\<close> and comparisons are
  comparisons of integers. Strings are byte lists in UTF-8; the shift labels of the source
  contain an en dash (U+2013), written here as its three bytes.
\<close>

record section_row =
  sec_id :: int
  sec_name :: string
  sec_required_per_day :: "int option"

record employee =
  e_id :: int
  e_name :: string
  e_section_id :: int
  e_preferred_shift :: "string option"
  e_seniority :: "int option"
  e_preferred_shifts_per_week :: "int option"
  e_max_shifts_per_week :: "int option"

record employee_role =
  er_employee_id :: int
  er_section_id :: int

record employee_availability =
  ea_employee_id :: int
  ea_day_of_week :: int
  ea_shift_label :: string
  ea_allowed :: bool

record week =
  w_id :: int
  w_start_date :: int

record assignment =
  a_week_id :: int
  a_employee_id :: int
  a_date :: int
  a_value :: string
  a_dismissed_timeoff :: bool

record timeoff =
  t_id :: int
  t_name :: string
  t_role :: string
  t_from_date :: int
  t_to_date :: int
  t_approved :: bool
  t_vacation :: bool

text \<open>
  The database: one list of rows per table, in the order in which an unordered
  \<open>select\<close> returns them. \<open>s.scalar(select(...).where(...))\<close> is the first row that
  satisfies the condition (\<open>find\<close>), or \<open>None\<close>.
\<close>

record db =
  db_sections :: "section_row list"
  db_employees :: "employee list"
  db_employee_roles :: "employee_role list"
  db_availability :: "employee_availability list"
  db_weeks :: "week list"
  db_assignments :: "assignment list"
  db_timeoff :: "timeoff list"

section \<open>Helpers and constants\<close>

definition daterange :: "int \<Rightarrow> nat \<Rightarrow> int list" where
  "daterange start days = map (\<lambda>i. start + int i) [0..<days]"

definition en_dash :: string where
  "en_dash = [CHR 0xE2, CHR 0x80, CHR 0x93]"

definition startswith :: "string \<Rightarrow> string \<Rightarrow> bool" where
  "startswith s p = prefix p s"

definition TIME_OFF_LABEL :: string where
  "TIME_OFF_LABEL = ''TIME OFF''"

definition SENIORITY_ORDER :: "string list" where
  "SENIORITY_ORDER =
     [''Cindy'', ''KC'', ''Ryan'', ''Emilyn'', ''Christian'', ''Troy'',
      ''Brian'', ''Tristan'', ''Terry'', ''Jordan'', ''Abdi'', ''Sato'']"

definition BREAKFAST_SHIFTS :: "string list" where
  "BREAKFAST_SHIFTS =
     [''Set'', TIME_OFF_LABEL,
      ''5AM'' @ en_dash @ ''12PM'',
      ''6AM'' @ en_dash @ ''12PM'',
      ''7AM'' @ en_dash @ ''12PM'']"

definition FRONT_DESK_SHIFTS :: "string list" where
  "FRONT_DESK_SHIFTS =
     [''Set'', TIME_OFF_LABEL,
      ''AM (6:00AM'' @ en_dash @ ''2:00PM)'',
      ''AM (6:15AM'' @ en_dash @ ''2:15PM)'',
      ''PM (2:00PM'' @ en_dash @ ''10:00PM)'',
      ''PM (2:15PM'' @ en_dash @ ''10:15PM)'',
      ''Audit (10:00PM'' @ en_dash @ ''6:00AM)'',
      ''Audit (10:15PM'' @ en_dash @ ''6:15AM)'']"

definition SHUTTLE_SHIFTS :: "string list" where
  "SHUTTLE_SHIFTS =
     [''Set'', TIME_OFF_LABEL,
      ''AM (3:30AM'' @ en_dash @ ''11:30AM)'',
      ''Midday (10:30AM'' @ en_dash @ ''6:30PM)'',
      ''PM (5:30PM'' @ en_dash @ ''1:30AM)'',
      ''Crew (5:45PM'' @ en_dash @ ''1:45AM)'']"

text \<open>\<open>value in ("Set", TIME_OFF_LABEL)\<close>.\<close>

definition is_placeholder :: "string \<Rightarrow> bool" where
  "is_placeholder v = (v = ''Set'' \<or> v = TIME_OFF_LABEL)"

text \<open>
  A Python dict built by successive stores: the last store to a key wins.
\<close>

definition dict_of :: "('k \<times> 'v) list \<Rightarrow> 'k \<Rightarrow> 'v option" where
  "dict_of kvs = map_of (rev kvs)"

text \<open>
  The three row lookups of the source:
  \<open>select(Assignment).where(week_id == w, employee_id == e, date == d)\<close>,
  \<open>s.get(Week, id)\<close> and \<open>s.get(Employee, id)\<close>.
\<close>

definition get_assignment :: "db \<Rightarrow> int \<Rightarrow> int \<Rightarrow> int \<Rightarrow> assignment option" where
  "get_assignment s w e d =
     find (\<lambda>a. a_week_id a = w \<and> a_employee_id a = e \<and> a_date a = d) (db_assignments s)"

definition get_week :: "db \<Rightarrow> int \<Rightarrow> week option" where
  "get_week s i = find (\<lambda>w. w_id w = i) (db_weeks s)"

definition get_employee :: "db \<Rightarrow> int \<Rightarrow> employee option" where
  "get_employee s i = find (\<lambda>e. e_id e = i) (db_employees s)"

section \<open>Conflict Detector: \<open>double_booked_snapshot\<close>\<close>

definition sec_by_id :: "db \<Rightarrow> int \<Rightarrow> string" where
  \<comment> \<open>\<open>sec_by_id.get(i, "")\<close>\<close>
  "sec_by_id s i =
     (case dict_of (map (\<lambda>sec. (sec_id sec, sec_name sec)) (db_sections s)) i of
        None \<Rightarrow> [] | Some n \<Rightarrow> n)"

text \<open>
  \<open>emp_sections\<close> is a dict from employee id to a Python set of section names. The set is
  a duplicate-free list here; its keys are the ids seen in the employee table and in the
  secondary-role table.
\<close>

definition emp_sections :: "db \<Rightarrow> int \<Rightarrow> string list" where
  "emp_sections s eid =
     remdups
       (map (\<lambda>e. sec_by_id s (e_section_id e)) (filter (\<lambda>e. e_id e = eid) (db_employees s)) @
        map (\<lambda>r. sec_by_id s (er_section_id r))
          (filter (\<lambda>r. er_employee_id r = eid) (db_employee_roles s)))"

definition emp_sections_keys :: "db \<Rightarrow> int list" where
  "emp_sections_keys s =
     remdups (map e_id (db_employees s) @ map er_employee_id (db_employee_roles s))"

definition multi_emp_ids :: "db \<Rightarrow> int list" where
  "multi_emp_ids s =
     filter (\<lambda>eid. length (filter (\<lambda>n. n \<noteq> []) (emp_sections s eid)) > 1)
       (emp_sections_keys s)"

definition section_shifts :: "string \<Rightarrow> string list" where
  "section_shifts name =
     (if name = ''Breakfast Bar'' then BREAKFAST_SHIFTS
      else if name = ''Front Desk'' then FRONT_DESK_SHIFTS
      else if name = ''Shuttle'' then SHUTTLE_SHIFTS
      else [])"

text \<open>\<open>result.setdefault(key, []).append(name)\<close> on a dict kept as an association list.\<close>

fun setdefault_append :: "'k \<Rightarrow> 'v \<Rightarrow> ('k \<times> 'v list) list \<Rightarrow> ('k \<times> 'v list) list" where
  "setdefault_append k v [] = [(k, [v])]"
| "setdefault_append k v ((k', vs) # r) =
     (if k' = k then (k', vs @ [v]) # r else (k', vs) # setdefault_append k v r)"

definition active_sections :: "db \<Rightarrow> int \<Rightarrow> string \<Rightarrow> nat" where
  "active_sections s eid v =
     length (filter (\<lambda>sec_name. sec_name \<noteq> [] \<and> v \<in> set (section_shifts sec_name))
               (emp_sections s eid))"

definition double_booked_day ::
  "db \<Rightarrow> int \<Rightarrow> employee \<Rightarrow> int \<Rightarrow> (int \<times> string list) list \<Rightarrow> (int \<times> string list) list"
where
  "double_booked_day s week_id emp d result =
     (case get_assignment s week_id (e_id emp) d of
        None \<Rightarrow> result
      | Some a \<Rightarrow>
          if a_value a = [] \<or> is_placeholder (a_value a) then result
          else if active_sections s (e_id emp) (a_value a) > 1
               then setdefault_append d (e_name emp) result
               else result)"

definition double_booked_emp ::
  "db \<Rightarrow> week \<Rightarrow> int \<Rightarrow> int \<Rightarrow> (int \<times> string list) list \<Rightarrow> (int \<times> string list) list"
where
  "double_booked_emp s wk week_id eid result =
     (case get_employee s eid of
        None \<Rightarrow> result
      | Some emp \<Rightarrow>
          fold (double_booked_day s week_id emp) (daterange (w_start_date wk) 7) result)"

text \<open>
  The result dict is keyed by the date (the source keys it by the date's ISO string).
\<close>

definition double_booked_snapshot :: "db \<Rightarrow> int \<Rightarrow> (int \<times> string list) list" where
  "double_booked_snapshot s week_id =
     (if multi_emp_ids s = [] then []
      else case get_week s week_id of
             None \<Rightarrow> []
           | Some wk \<Rightarrow> fold (double_booked_emp s wk week_id) (multi_emp_ids s) [])"

section \<open>Leave requests and leave synchronisation\<close>

datatype py_error = KeyError | ValueError | AttributeError | NameError

definition has_approved_timeoff :: "string \<Rightarrow> int \<Rightarrow> db \<Rightarrow> bool" where
  "has_approved_timeoff name dte s =
     list_ex (\<lambda>t. t_name t = name \<and> t_approved t \<and> t_from_date t \<le> dte \<and> t_to_date t \<ge> dte)
       (db_timeoff s)"

definition has_any_timeoff :: "string \<Rightarrow> int \<Rightarrow> db \<Rightarrow> bool" where
  "has_any_timeoff name dte s =
     list_ex (\<lambda>t. t_name t = name \<and> t_from_date t \<le> dte \<and> t_to_date t \<ge> dte) (db_timeoff s)"

text \<open>
  A row fetched with \<open>s.scalar\<close> is mutated in place: the first row that satisfies the
  condition changes, every other row stays.
\<close>

fun update_first :: "('a \<Rightarrow> bool) \<Rightarrow> ('a \<Rightarrow> 'a) \<Rightarrow> 'a list \<Rightarrow> 'a list" where
  "update_first P f [] = []"
| "update_first P f (x # xs) = (if P x then f x # xs else x # update_first P f xs)"

definition update_assignment ::
  "int \<Rightarrow> int \<Rightarrow> int \<Rightarrow> (assignment \<Rightarrow> assignment) \<Rightarrow> db \<Rightarrow> db" where
  "update_assignment w e d f s =
     s\<lparr>db_assignments :=
         update_first (\<lambda>a. a_week_id a = w \<and> a_employee_id a = e \<and> a_date a = d) f
           (db_assignments s)\<rparr>"

definition set_value :: "int \<Rightarrow> int \<Rightarrow> int \<Rightarrow> string \<Rightarrow> db \<Rightarrow> db" where
  "set_value w e d v = update_assignment w e d (\<lambda>a. a\<lparr>a_value := v\<rparr>)"

definition sync_day :: "int \<Rightarrow> employee \<Rightarrow> int \<Rightarrow> db \<Rightarrow> db" where
  "sync_day week_id emp d s =
     (if has_approved_timeoff (e_name emp) d s then
        (case get_assignment s week_id (e_id emp) d of
           None \<Rightarrow> s
         | Some a \<Rightarrow>
             if a_value a \<noteq> TIME_OFF_LABEL then set_value week_id (e_id emp) d TIME_OFF_LABEL s
             else s)
      else s)"

definition sync_emp :: "int \<Rightarrow> int list \<Rightarrow> employee \<Rightarrow> db \<Rightarrow> db" where
  "sync_emp week_id days emp s = fold (sync_day week_id emp) days s"

text \<open>
  \<open>s.get(Week, week_id)\<close> may be \<open>None\<close>; \<open>wk.start_date\<close> then raises AttributeError.
\<close>

definition sync_timeoff_to_assignments :: "int \<Rightarrow> db \<Rightarrow> py_error + db" where
  "sync_timeoff_to_assignments week_id s =
     (case get_week s week_id of
        None \<Rightarrow> Inl AttributeError
      | Some wk \<Rightarrow>
          Inr (fold (sync_emp week_id (daterange (w_start_date wk) 7)) (db_employees s) s))"

section \<open>The 4-week generator\<close>

subsection \<open>Precomputed lookups\<close>

definition weekday :: "int \<Rightarrow> int" where
  \<comment> \<open>\<open>date.weekday()\<close>: 0 is Monday; ordinal 1 (0001-01-01) is a Monday\<close>
  "weekday dte = (dte + 6) mod 7"

definition build_availability_index :: "db \<Rightarrow> int \<Rightarrow> (int \<times> string) list" where
  \<comment> \<open>the set stored under an employee id; the empty list stands for a missing key\<close>
  "build_availability_index s eid =
     map (\<lambda>ea. (ea_day_of_week ea, ea_shift_label ea))
       (filter (\<lambda>ea. ea_employee_id ea = eid) (db_availability s))"

definition fd_variant :: "string \<Rightarrow> string" where
  "fd_variant label =
     (if startswith label ''AM'' then ''AM''
      else if startswith label ''PM'' then ''PM''
      else if startswith label ''Audit'' then ''Audit''
      else label)"

definition pref_token :: "string \<Rightarrow> string \<Rightarrow> string" where
  "pref_token role label = (if role = ''Front Desk'' then fd_variant label else label)"

record emp_info_row =
  ei_role :: string
  ei_seniority :: int
  ei_preferred_shift :: "string option"
  ei_pref_per_week :: "int option"
  ei_max_per_week :: "int option"

text \<open>
  Everything the generator computes once, before the loop over the weeks. The three id
  lists come from \<open>list({*primary_ids, *secondary_ids})\<close>; the order in which Python
  iterates a set is not fixed by the language, so the conversion is the parameter
  \<open>set_order\<close> of \<open>build_ctx\<close>.
\<close>

record gen_ctx =
  avail_idx :: "int \<Rightarrow> (int \<times> string) list"
  emp_info :: "int \<Rightarrow> emp_info_row option"
  emp_name :: "int \<Rightarrow> string option"
  fd_emp_ids :: "int list"
  bb_emp_ids :: "int list"
  sh_emp_ids :: "int list"

definition section_name_of :: "db \<Rightarrow> int \<Rightarrow> string" where
  \<comment> \<open>\<open>sec.name if sec else ""\<close> for \<open>sec = s.get(Section, i)\<close>\<close>
  "section_name_of s i =
     (case find (\<lambda>sec. sec_id sec = i) (db_sections s) of None \<Rightarrow> [] | Some sec \<Rightarrow> sec_name sec)"

definition emp_info_of :: "db \<Rightarrow> employee \<Rightarrow> emp_info_row" where
  "emp_info_of s e =
     \<lparr>ei_role = section_name_of s (e_section_id e),
      ei_seniority = (case e_seniority e of None \<Rightarrow> 0 | Some n \<Rightarrow> n),
      ei_preferred_shift =
        (case e_preferred_shift e of None \<Rightarrow> None | Some p \<Rightarrow> if p = [] then None else Some p),
      ei_pref_per_week = e_preferred_shifts_per_week e,
      ei_max_per_week = e_max_shifts_per_week e\<rparr>"

definition employees_for_section :: "(int list \<Rightarrow> int list) \<Rightarrow> db \<Rightarrow> string \<Rightarrow> int list" where
  "employees_for_section set_order s name =
     (case find (\<lambda>sec. sec_name sec = name) (db_sections s) of
        None \<Rightarrow> []
      | Some sec \<Rightarrow>
          set_order
            (map e_id (filter (\<lambda>e. e_section_id e = sec_id sec) (db_employees s)) @
             map er_employee_id
               (filter (\<lambda>r. er_section_id r = sec_id sec) (db_employee_roles s))))"

definition build_ctx :: "(int list \<Rightarrow> int list) \<Rightarrow> db \<Rightarrow> gen_ctx" where
  "build_ctx set_order s =
     \<lparr>avail_idx = build_availability_index s,
      emp_info = dict_of (map (\<lambda>e. (e_id e, emp_info_of s e)) (db_employees s)),
      emp_name = dict_of (map (\<lambda>e. (e_id e, e_name e)) (db_employees s)),
      fd_emp_ids = employees_for_section set_order s ''Front Desk'',
      bb_emp_ids = employees_for_section set_order s ''Breakfast Bar'',
      sh_emp_ids = employees_for_section set_order s ''Shuttle''\<rparr>"

definition emp_name_get :: "gen_ctx \<Rightarrow> int \<Rightarrow> string" where
  \<comment> \<open>\<open>emp_name.get(eid, '')\<close>\<close>
  "emp_name_get ctx eid = (case emp_name ctx eid of None \<Rightarrow> [] | Some n \<Rightarrow> n)"

definition is_available :: "int \<Rightarrow> string \<Rightarrow> string \<Rightarrow> int \<Rightarrow> gen_ctx \<Rightarrow> bool" where
  "is_available emp_id role shift_label dte ctx =
     (let allowed = avail_idx ctx emp_id in
      if allowed = [] then False
      else if role = ''Front Desk'' then (weekday dte, fd_variant shift_label) \<in> set allowed
      else (weekday dte, shift_label) \<in> set allowed)"

text \<open>\<open>emp_info[eid]\<close> raises KeyError for an id that is not an employee's.\<close>

definition effective_max_for_role :: "gen_ctx \<Rightarrow> int \<Rightarrow> string \<Rightarrow> py_error + int option" where
  "effective_max_for_role ctx eid role =
     (case emp_info ctx eid of
        None \<Rightarrow> Inl KeyError
      | Some info \<Rightarrow>
          (case ei_max_per_week info of
             Some maxw \<Rightarrow> Inr (Some maxw)
           | None \<Rightarrow>
               if role = ''Front Desk'' then Inr (Some 5)
               else if role = ''Shuttle'' then Inr (Some 4)
               else Inr None))"

subsection \<open>Week materialisation and reset\<close>

definition new_week_id :: "db \<Rightarrow> int" where
  \<comment> \<open>the integer primary key SQLite gives a new row: one more than the largest in use\<close>
  "new_week_id s = (if db_weeks s = [] then 1 else Max (set (map w_id (db_weeks s))) + 1)"

definition ensure_assignment :: "int \<Rightarrow> int \<Rightarrow> int \<Rightarrow> db \<Rightarrow> db" where
  "ensure_assignment week_id eid d s =
     (case get_assignment s week_id eid d of
        Some a \<Rightarrow> s
      | None \<Rightarrow>
          s\<lparr>db_assignments := db_assignments s @
               [\<lparr>a_week_id = week_id, a_employee_id = eid, a_date = d, a_value = ''Set'',
                 a_dismissed_timeoff = False\<rparr>]\<rparr>)"

definition ensure_week_and_assignments :: "db \<Rightarrow> int \<Rightarrow> db \<times> week" where
  "ensure_week_and_assignments s start_d =
     (let (s1, wk) =
            (case find (\<lambda>w. w_start_date w = start_d) (db_weeks s) of
               Some wk \<Rightarrow> (s, wk)
             | None \<Rightarrow>
                 (let wk = \<lparr>w_id = new_week_id s, w_start_date = start_d\<rparr>
                  in (s\<lparr>db_weeks := db_weeks s @ [wk]\<rparr>, wk)))
      in (fold (\<lambda>emp. fold (ensure_assignment (w_id wk) (e_id emp)) (daterange start_d 7))
            (db_employees s1) s1, wk))"

definition reset_week :: "int \<Rightarrow> db \<Rightarrow> db" where
  \<comment> \<open>\<open>update(Assignment).where(week_id == wk.id).values(value="Set", dismissed_timeoff=0)\<close>\<close>
  "reset_week week_id s =
     s\<lparr>db_assignments :=
         map (\<lambda>a. if a_week_id a = week_id
                   then a\<lparr>a_value := ''Set'', a_dismissed_timeoff := False\<rparr> else a)
           (db_assignments s)\<rparr>"

subsection \<open>Rest rule and candidate ranking\<close>

text \<open>
  The state of one week's run: the database, \<open>assigned_counts\<close> and
  \<open>last_token_per_role\<close>. \<open>assigned_counts\<close> is created with the keys of \<open>emp_info\<close> and
  every read of \<open>assigned_counts[eid]\<close> in the source comes after a read of
  \<open>emp_info[eid]\<close>, which raises first; so the dict is a total function here.
\<close>

record gen_state =
  gs_db :: db
  assigned_counts :: "int \<Rightarrow> int"
  last_token_per_role :: "int \<times> string \<Rightarrow> string option"

definition rest_ok :: "db \<Rightarrow> int \<Rightarrow> int \<Rightarrow> string \<Rightarrow> string \<Rightarrow> bool" where
  "rest_ok s eid dte role label =
     (case find (\<lambda>a. a_employee_id a = eid \<and> a_date a = dte - 1) (db_assignments s) of
        None \<Rightarrow> True
      | Some a_prev \<Rightarrow>
          if a_value a_prev = [] \<or> is_placeholder (a_value a_prev) then True
          else if role = ''Front Desk'' \<and> startswith label ''AM''
                  \<and> startswith (a_value a_prev) ''PM'' then False
          else if role = ''Front Desk'' \<and> startswith label ''PM''
                  \<and> startswith (a_value a_prev) ''Audit'' then False
          else if role = ''Shuttle'' \<and> startswith label ''AM''
                  \<and> (startswith (a_value a_prev) ''PM'' \<or> startswith (a_value a_prev) ''Crew'')
               then False
          else if role = ''Shuttle'' \<and> startswith label ''Midday''
                  \<and> startswith (a_value a_prev) ''Crew'' then False
          else True)"

text \<open>The filter loop of \<open>pick_best\<close>: weekly cap, then rest rule.\<close>

fun pick_filter ::
  "gen_ctx \<Rightarrow> gen_state \<Rightarrow> int \<Rightarrow> string \<Rightarrow> string \<Rightarrow> int list \<Rightarrow> py_error + int list" where
  "pick_filter ctx gs cur role label [] = Inr []"
| "pick_filter ctx gs cur role label (eid # rest) =
     (case effective_max_for_role ctx eid role of
        Inl err \<Rightarrow> Inl err
      | Inr maxw \<Rightarrow>
          if (case maxw of None \<Rightarrow> False | Some m \<Rightarrow> assigned_counts gs eid \<ge> m)
          then pick_filter ctx gs cur role label rest
          else if \<not> rest_ok (gs_db gs) eid cur role label
          then pick_filter ctx gs cur role label rest
          else (case pick_filter ctx gs cur role label rest of
                  Inl err \<Rightarrow> Inl err
                | Inr filtered \<Rightarrow> Inr (eid # filtered)))"

type_synonym rank_key = "int \<times> int \<times> int \<times> int \<times> int"

definition key_fn ::
  "gen_ctx \<Rightarrow> gen_state \<Rightarrow> string \<Rightarrow> string \<Rightarrow> int \<Rightarrow> py_error + rank_key" where
  "key_fn ctx gs role label eid =
     (case emp_info ctx eid of
        None \<Rightarrow> Inl KeyError
      | Some info \<Rightarrow>
          (let under_pref =
                 (case ei_pref_per_week info of
                    None \<Rightarrow> False | Some prefw \<Rightarrow> assigned_counts gs eid < prefw);
               preferred_match =
                 (case ei_preferred_shift info of
                    None \<Rightarrow> False | Some want \<Rightarrow> pref_token role label = want);
               consistent =
                 (case last_token_per_role gs (eid, role) of
                    None \<Rightarrow> False | Some last_tok \<Rightarrow> last_tok = pref_token role label)
           in Inr (if under_pref then 0 else 1,
                   if preferred_match then 0 else 1,
                   if consistent then 0 else 1,
                   - ei_seniority info,
                   assigned_counts gs eid)))"

text \<open>
  \<open>sorted(filtered, key=key_fn)\<close>: each key is computed once, the sort is stable and
  compares the key tuples lexicographically.
\<close>

fun keyed :: "('a \<Rightarrow> py_error + 'k) \<Rightarrow> 'a list \<Rightarrow> py_error + ('k \<times> 'a) list" where
  "keyed f [] = Inr []"
| "keyed f (x # xs) =
     (case f x of
        Inl err \<Rightarrow> Inl err
      | Inr k \<Rightarrow> (case keyed f xs of Inl err \<Rightarrow> Inl err | Inr r \<Rightarrow> Inr ((k, x) # r)))"

definition rank_candidates ::
  "gen_ctx \<Rightarrow> gen_state \<Rightarrow> string \<Rightarrow> string \<Rightarrow> int list \<Rightarrow> py_error + int list" where
  "rank_candidates ctx gs role label filtered =
     (case keyed (key_fn ctx gs role label) filtered of
        Inl err \<Rightarrow> Inl err
      | Inr kxs \<Rightarrow> Inr (map snd (sort_key fst kxs)))"

definition pick_best ::
  "gen_ctx \<Rightarrow> gen_state \<Rightarrow> int \<Rightarrow> int list \<Rightarrow> string \<Rightarrow> string \<Rightarrow> py_error + int option"
where
  "pick_best ctx gs cur candidates role label =
     (case pick_filter ctx gs cur role label candidates of
        Inl err \<Rightarrow> Inl err
      | Inr filtered \<Rightarrow>
          if filtered = [] then Inr None
          else (case rank_candidates ctx gs role label filtered of
                  Inl err \<Rightarrow> Inl err
                | Inr ranked \<Rightarrow> Inr (Some (hd ranked))))"

text \<open>A \<open>for\<close> loop whose body may raise: the first exception ends the loop.\<close>

fun fold_err :: "('a \<Rightarrow> 's \<Rightarrow> 'e + 's) \<Rightarrow> 'a list \<Rightarrow> 's \<Rightarrow> 'e + 's" where
  "fold_err f [] s = Inr s"
| "fold_err f (x # xs) s = (case f x s of Inl err \<Rightarrow> Inl err | Inr s' \<Rightarrow> fold_err f xs s')"

subsection \<open>Front Desk pass\<close>

definition mark_dismissed :: "int \<Rightarrow> int \<Rightarrow> int \<Rightarrow> db \<Rightarrow> db" where
  "mark_dismissed week_id eid dte =
     update_assignment week_id eid dte (\<lambda>a. a\<lparr>a_dismissed_timeoff := True\<rparr>)"

text \<open>
  One round of the loop \<open>for eid in pool\<close> that collects the candidates of a Front Desk
  variant. The state is the candidate list so far and the run state.
\<close>

definition fd_cand_step ::
  "gen_ctx \<Rightarrow> int \<Rightarrow> int \<Rightarrow> string \<Rightarrow> int \<Rightarrow> int list \<times> gen_state
     \<Rightarrow> py_error + int list \<times> gen_state" where
  "fd_cand_step ctx week_id d variant eid st =
     (let (cand, gs) = st in
      case get_assignment (gs_db gs) week_id eid d of
        None \<Rightarrow> Inr (cand, gs)
      | Some a \<Rightarrow>
          if a_value a \<noteq> ''Set'' then Inr (cand, gs)
          else if \<not> is_available eid ''Front Desk'' variant d ctx then Inr (cand, gs)
          else if \<not> rest_ok (gs_db gs) eid d ''Front Desk'' variant then Inr (cand, gs)
          else if has_any_timeoff (emp_name_get ctx eid) d (gs_db gs)
          then Inr (cand, gs\<lparr>gs_db := mark_dismissed week_id eid d (gs_db gs)\<rparr>)
          else (case effective_max_for_role ctx eid ''Front Desk'' of
                  Inl err \<Rightarrow> Inl err
                | Inr maxw \<Rightarrow>
                    if (case maxw of None \<Rightarrow> False | Some m \<Rightarrow> assigned_counts gs eid \<ge> m)
                    then Inr (cand, gs)
                    else Inr (cand @ [eid], gs)))"

text \<open>
  \<open>for slot_i in range(2)\<close>: pick the best of the candidates not picked yet; stop at the
  first \<open>None\<close>.
\<close>

fun fd_picks ::
  "gen_ctx \<Rightarrow> gen_state \<Rightarrow> int \<Rightarrow> string \<Rightarrow> int list \<Rightarrow> nat \<Rightarrow> int list
     \<Rightarrow> py_error + int list" where
  "fd_picks ctx gs d variant cand 0 picks = Inr picks"
| "fd_picks ctx gs d variant cand (Suc n) picks =
     (case pick_best ctx gs d (filter (\<lambda>e. e \<notin> set picks) cand) ''Front Desk'' variant of
        Inl err \<Rightarrow> Inl err
      | Inr None \<Rightarrow> Inr picks
      | Inr (Some pick) \<Rightarrow> fd_picks ctx gs d variant cand n (picks @ [pick]))"

fun index_of :: "'a \<Rightarrow> 'a list \<Rightarrow> nat option" where
  "index_of x [] = None"
| "index_of x (y # ys) =
     (if x = y then Some 0 else (case index_of x ys of None \<Rightarrow> None | Some i \<Rightarrow> Some (Suc i)))"

definition seniority_rank :: "gen_ctx \<Rightarrow> int \<Rightarrow> int" where
  "seniority_rank ctx eid =
     (let name = emp_name_get ctx eid in
      if name = ''Ryan'' then 10000
      else (case index_of name SENIORITY_ORDER of Some i \<Rightarrow> int i | None \<Rightarrow> 9999))"

definition stagger_label :: "gen_ctx \<Rightarrow> string list \<Rightarrow> int list \<Rightarrow> nat \<Rightarrow> int \<Rightarrow> string" where
  "stagger_label ctx opts picks i eid =
     (if length picks = 1 \<and> emp_name_get ctx eid = ''Ryan'' \<and> length opts > 1 then opts ! 1
      else if i < length opts then opts ! i else last opts)"

text \<open>
  The body of \<open>for i, eid in enumerate(picks)\<close>. \<open>pool.remove(eid)\<close> cannot raise: every
  pick is a candidate, every candidate is in the pool, and no id is picked twice.
\<close>

definition fd_assign_pick ::
  "gen_ctx \<Rightarrow> int \<Rightarrow> int \<Rightarrow> string \<Rightarrow> string list \<Rightarrow> int list \<Rightarrow> nat \<times> int
     \<Rightarrow> int list \<times> gen_state \<Rightarrow> int list \<times> gen_state" where
  "fd_assign_pick ctx week_id d variant opts picks ie st =
     (let (i, eid) = ie; (pool, gs) = st;
          label = stagger_label ctx opts picks i eid
      in (remove1 eid pool,
          case get_assignment (gs_db gs) week_id eid d of
            None \<Rightarrow> gs
          | Some a \<Rightarrow>
              gs\<lparr>gs_db := set_value week_id eid d label (gs_db gs),
                 assigned_counts := (assigned_counts gs)(eid := assigned_counts gs eid + 1),
                 last_token_per_role :=
                   (last_token_per_role gs)((eid, ''Front Desk'') :=
                      Some (pref_token ''Front Desk'' variant))\<rparr>))"

text \<open>
  \<open>picks.sort(key=_seniority_rank)\<close> followed by the loop that hands out the stagger
  labels.
\<close>

definition fd_place_picks ::
  "gen_ctx \<Rightarrow> int \<Rightarrow> int \<Rightarrow> string \<Rightarrow> string list \<Rightarrow> int list
     \<Rightarrow> int list \<times> gen_state \<Rightarrow> int list \<times> gen_state" where
  "fd_place_picks ctx week_id d variant opts picks0 st =
     (let picks = sort_key (seniority_rank ctx) picks0 in
      fold (fd_assign_pick ctx week_id d variant opts picks) (enumerate 0 picks) st)"

definition fd_variant_step ::
  "gen_ctx \<Rightarrow> int \<Rightarrow> int \<Rightarrow> string \<times> string list \<Rightarrow> int list \<times> gen_state
     \<Rightarrow> py_error + int list \<times> gen_state" where
  "fd_variant_step ctx week_id d vo st =
     (let (variant, opts) = vo; (pool, gs) = st in
      case fold_err (fd_cand_step ctx week_id d variant) pool ([], gs) of
        Inl err \<Rightarrow> Inl err
      | Inr (cand, gs1) \<Rightarrow>
          if cand = [] then Inr (pool, gs1)
          else (case fd_picks ctx gs1 d variant cand 2 [] of
                  Inl err \<Rightarrow> Inl err
                | Inr picks0 \<Rightarrow>
                    Inr (fd_place_picks ctx week_id d variant opts picks0 (pool, gs1))))"

definition FD_VARIANTS :: "(string \<times> string list) list" where
  "FD_VARIANTS =
     [(''AM'', [''AM (6:00AM'' @ en_dash @ ''2:00PM)'', ''AM (6:15AM'' @ en_dash @ ''2:15PM)'']),
      (''PM'', [''PM (2:00PM'' @ en_dash @ ''10:00PM)'', ''PM (2:15PM'' @ en_dash @ ''10:15PM)'']),
      (''Audit'', [''Audit (10:00PM'' @ en_dash @ ''6:00AM)'',
                   ''Audit (10:15PM'' @ en_dash @ ''6:15AM)''])]"

definition fd_day :: "gen_ctx \<Rightarrow> int \<Rightarrow> int \<Rightarrow> gen_state \<Rightarrow> py_error + gen_state" where
  "fd_day ctx week_id d gs =
     (case fold_err (fd_variant_step ctx week_id d) FD_VARIANTS (fd_emp_ids ctx, gs) of
        Inl err \<Rightarrow> Inl err
      | Inr (pool, gs') \<Rightarrow> Inr gs')"

definition fd_pass :: "gen_ctx \<Rightarrow> week \<Rightarrow> gen_state \<Rightarrow> py_error + gen_state" where
  "fd_pass ctx wk gs = fold_err (fd_day ctx (w_id wk)) (daterange (w_start_date wk) 7) gs"

subsection \<open>Reservation for the Front Desk\<close>

definition fd_count_step :: "db \<Rightarrow> int \<Rightarrow> int \<Rightarrow> int \<Rightarrow> nat \<times> nat \<times> nat \<Rightarrow> nat \<times> nat \<times> nat"
where
  "fd_count_step s week_id day eid c =
     (let (am, pm, au) = c in
      case get_assignment s week_id eid day of
        None \<Rightarrow> c
      | Some a \<Rightarrow>
          if a_value a = [] \<or> is_placeholder (a_value a) then c
          else if startswith (a_value a) ''AM'' then (am + 1, pm, au)
          else if startswith (a_value a) ''PM'' then (am, pm + 1, au)
          else if startswith (a_value a) ''Audit'' then (am, pm, au + 1)
          else c)"

definition fd_missing_on :: "gen_ctx \<Rightarrow> db \<Rightarrow> int \<Rightarrow> int \<Rightarrow> bool" where
  "fd_missing_on ctx s week_id day =
     (let (am, pm, au) = fold (fd_count_step s week_id day) (fd_emp_ids ctx) (0, 0, 0)
      in am < 2 \<or> pm < 2 \<or> au < 2)"

definition reserve_on :: "gen_ctx \<Rightarrow> db \<Rightarrow> int \<Rightarrow> int \<Rightarrow> int list" where
  "reserve_on ctx s week_id d =
     filter (\<lambda>eid. case get_assignment s week_id eid d of
                      None \<Rightarrow> False | Some a \<Rightarrow> a_value a = ''Set'')
       (fd_emp_ids ctx)"

definition reserve_step ::
  "gen_ctx \<Rightarrow> db \<Rightarrow> int \<Rightarrow> int \<Rightarrow> (int \<Rightarrow> int list option) \<Rightarrow> (int \<Rightarrow> int list option)" where
  "reserve_step ctx s week_id d reserved =
     (if fd_missing_on ctx s week_id d then
        (let reserve = reserve_on ctx s week_id d in
         if reserve \<noteq> [] then reserved(d := Some reserve) else reserved)
      else reserved)"

definition reserved_fd_by_date :: "gen_ctx \<Rightarrow> db \<Rightarrow> week \<Rightarrow> int \<Rightarrow> int list option" where
  \<comment> \<open>a dict from dates to sets of employee ids\<close>
  "reserved_fd_by_date ctx s wk =
     fold (reserve_step ctx s (w_id wk)) (daterange (w_start_date wk) 7) (\<lambda>d. None)"

definition is_reserved :: "(int \<Rightarrow> int list option) \<Rightarrow> int \<Rightarrow> int \<Rightarrow> bool" where
  \<comment> \<open>\<open>d in reserved_fd_by_date and eid in reserved_fd_by_date[d]\<close>\<close>
  "is_reserved reserved d eid = (case reserved d of None \<Rightarrow> False | Some r \<Rightarrow> eid \<in> set r)"

subsection \<open>Breakfast Bar pass and Shuttle pass\<close>

text \<open>
  The Breakfast Bar loop and the Shuttle loop of the source are the same code up to the
  role name, the list of labels, the id list and the test that decides whether a worker
  dropped for a leave request is marked: the Breakfast Bar loop asks for availability and
  rest, the Shuttle loop for rest only. One definition with the role as parameter stands
  for both.
\<close>

definition would_pass :: "gen_ctx \<Rightarrow> db \<Rightarrow> string \<Rightarrow> int \<Rightarrow> int \<Rightarrow> string \<Rightarrow> bool" where
  "would_pass ctx s role eid d shift =
     (if role = ''Shuttle'' then rest_ok s eid d role shift
      else is_available eid role shift d ctx \<and> rest_ok s eid d role shift)"

definition dept_cand_step ::
  "gen_ctx \<Rightarrow> int \<Rightarrow> (int \<Rightarrow> int list option) \<Rightarrow> string \<Rightarrow> int \<Rightarrow> string \<Rightarrow> int
     \<Rightarrow> int list \<times> db \<Rightarrow> int list \<times> db" where
  "dept_cand_step ctx week_id reserved role d shift eid st =
     (let (candidates, s) = st in
      if is_reserved reserved d eid then (candidates, s)
      else if fd_missing_on ctx s week_id d \<and> eid \<in> set (fd_emp_ids ctx) then (candidates, s)
      else (case get_assignment s week_id eid d of
              None \<Rightarrow> (candidates, s)
            | Some a \<Rightarrow>
                if a_value a \<noteq> ''Set'' then (candidates, s)
                else if has_any_timeoff (emp_name_get ctx eid) d s
                then (if would_pass ctx s role eid d shift
                      then (candidates, mark_dismissed week_id eid d s)
                      else (candidates, s))
                else if is_available eid role shift d ctx \<and> rest_ok s eid d role shift
                then (candidates @ [eid], s)
                else (candidates, s)))"

definition dept_shift_step ::
  "gen_ctx \<Rightarrow> int \<Rightarrow> (int \<Rightarrow> int list option) \<Rightarrow> string \<Rightarrow> int \<Rightarrow> string
     \<Rightarrow> int list \<times> gen_state \<Rightarrow> py_error + int list \<times> gen_state" where
  "dept_shift_step ctx week_id reserved role d shift st =
     (let (pool, gs) = st;
          (candidates, s1) =
             fold (dept_cand_step ctx week_id reserved role d shift) pool ([], gs_db gs);
          gs1 = gs\<lparr>gs_db := s1\<rparr>
      in case pick_best ctx gs1 d candidates role shift of
           Inl err \<Rightarrow> Inl err
         | Inr None \<Rightarrow> Inr (pool, gs1)
         | Inr (Some pick) \<Rightarrow>
             Inr (remove1 pick pool,
                  case get_assignment s1 week_id pick d of
                    None \<Rightarrow> gs1
                  | Some a \<Rightarrow>
                      gs1\<lparr>gs_db := set_value week_id pick d shift s1,
                          assigned_counts :=
                            (assigned_counts gs1)(pick := assigned_counts gs1 pick + 1),
                          last_token_per_role :=
                            (last_token_per_role gs1)((pick, role) :=
                               Some (pref_token role shift))\<rparr>))"

definition dept_day ::
  "gen_ctx \<Rightarrow> int \<Rightarrow> (int \<Rightarrow> int list option) \<Rightarrow> string \<Rightarrow> int list \<Rightarrow> string list \<Rightarrow> int
     \<Rightarrow> gen_state \<Rightarrow> py_error + gen_state" where
  "dept_day ctx week_id reserved role ids shifts d gs =
     (case fold_err (dept_shift_step ctx week_id reserved role d) shifts (ids, gs) of
        Inl err \<Rightarrow> Inl err
      | Inr (pool, gs') \<Rightarrow> Inr gs')"

definition dept_pass ::
  "gen_ctx \<Rightarrow> week \<Rightarrow> (int \<Rightarrow> int list option) \<Rightarrow> string \<Rightarrow> int list \<Rightarrow> string list
     \<Rightarrow> gen_state \<Rightarrow> py_error + gen_state" where
  "dept_pass ctx wk reserved role ids shifts gs =
     fold_err (dept_day ctx (w_id wk) reserved role ids shifts) (daterange (w_start_date wk) 7) gs"

definition BB_PASS_SHIFTS :: "string list" where
  "BB_PASS_SHIFTS =
     [''5AM'' @ en_dash @ ''12PM'', ''6AM'' @ en_dash @ ''12PM'', ''7AM'' @ en_dash @ ''12PM'']"

definition SH_PASS_VARIANTS :: "string list" where
  "SH_PASS_VARIANTS =
     [''AM (3:30AM'' @ en_dash @ ''11:30AM)'',
      ''Midday (10:30AM'' @ en_dash @ ''6:30PM)'',
      ''PM (5:30PM'' @ en_dash @ ''1:30AM)'',
      ''Crew (5:45PM'' @ en_dash @ ''1:45AM)'']"

subsection \<open>One week, four weeks\<close>

definition bb_pass ::
  "gen_ctx \<Rightarrow> week \<Rightarrow> (int \<Rightarrow> int list option) \<Rightarrow> gen_state \<Rightarrow> py_error + gen_state" where
  "bb_pass ctx wk reserved = dept_pass ctx wk reserved ''Breakfast Bar'' (bb_emp_ids ctx) BB_PASS_SHIFTS"

definition sh_pass ::
  "gen_ctx \<Rightarrow> week \<Rightarrow> (int \<Rightarrow> int list option) \<Rightarrow> gen_state \<Rightarrow> py_error + gen_state" where
  "sh_pass ctx wk reserved = dept_pass ctx wk reserved ''Shuttle'' (sh_emp_ids ctx) SH_PASS_VARIANTS"

definition init_gen_state :: "db \<Rightarrow> gen_state" where
  "init_gen_state s = \<lparr>gs_db = s, assigned_counts = (\<lambda>eid. 0), last_token_per_role = (\<lambda>k. None)\<rparr>"

definition gen_week :: "gen_ctx \<Rightarrow> int \<Rightarrow> db \<Rightarrow> py_error + db" where
  "gen_week ctx start_d s =
     (let (s1, wk) = ensure_week_and_assignments s start_d;
          gs0 = init_gen_state (reset_week (w_id wk) s1)
      in case fd_pass ctx wk gs0 of
           Inl err \<Rightarrow> Inl err
         | Inr gs1 \<Rightarrow>
             (let reserved = reserved_fd_by_date ctx (gs_db gs1) wk in
              case bb_pass ctx wk reserved gs1 of
                Inl err \<Rightarrow> Inl err
              | Inr gs2 \<Rightarrow>
                  (case sh_pass ctx wk reserved gs2 of
                     Inl err \<Rightarrow> Inl err
                   | Inr gs3 \<Rightarrow> sync_timeoff_to_assignments (w_id wk) (gs_db gs3))))"

definition generate_weeks :: "gen_ctx \<Rightarrow> int \<Rightarrow> db \<Rightarrow> py_error + db" where
  "generate_weeks ctx base_start s =
     fold_err (\<lambda>week_offset. gen_week ctx (base_start + 7 * week_offset)) [0, 1, 2, 3] s"

text \<open>
  \<open>generate_4_week_schedule\<close>: nothing happens when the start week does not exist. The
  log file the source writes is not part of the model.
\<close>

definition generate_4_week_schedule :: "(int list \<Rightarrow> int list) \<Rightarrow> int \<Rightarrow> db \<Rightarrow> py_error + db"
where
  "generate_4_week_schedule set_order start_week_id s =
     (case get_week s start_week_id of
        None \<Rightarrow> Inr s
      | Some base_week \<Rightarrow> generate_weeks (build_ctx set_order s) (w_start_date base_week) s)"

section \<open>Coverage analysis: \<open>coverage_snapshot_db\<close>\<close>

text \<open>
  The dicts of the snapshot are association lists in insertion order. A store to an
  existing key keeps its place; a store to a new key appends.
\<close>

fun dict_store :: "'k \<Rightarrow> 'v \<Rightarrow> ('k \<times> 'v) list \<Rightarrow> ('k \<times> 'v) list" where
  "dict_store k v [] = [(k, v)]"
| "dict_store k v ((k', v') # r) = (if k' = k then (k, v) # r else (k', v') # dict_store k v r)"

type_synonym day_counts = "(int \<times> (string \<times> int) list) list"
type_synonym label_counts = "(int \<times> (string \<times> (string \<times> int) list) list) list"

text \<open>\<open>counts[date_key][variant] += 1\<close>: KeyError when a key is missing.\<close>

definition incr :: "int \<Rightarrow> string \<Rightarrow> day_counts \<Rightarrow> py_error + day_counts" where
  "incr date_key variant counts =
     (case map_of counts date_key of
        None \<Rightarrow> Inl KeyError
      | Some row \<Rightarrow>
          (case map_of row variant of
             None \<Rightarrow> Inl KeyError
           | Some n \<Rightarrow> Inr (dict_store date_key (dict_store variant (n + 1) row) counts)))"

text \<open>
  \<open>fd_label_counts[date_key][variant][label] = fd_label_counts[date_key][variant].get(label, 0) + 1\<close>
\<close>

definition incr_label :: "int \<Rightarrow> string \<Rightarrow> string \<Rightarrow> label_counts \<Rightarrow> py_error + label_counts" where
  "incr_label date_key variant label flc =
     (case map_of flc date_key of
        None \<Rightarrow> Inl KeyError
      | Some row \<Rightarrow>
          (case map_of row variant of
             None \<Rightarrow> Inl KeyError
           | Some exact \<Rightarrow>
               Inr (dict_store date_key
                      (dict_store variant
                         (dict_store label
                            ((case map_of exact label of None \<Rightarrow> 0 | Some n \<Rightarrow> n) + 1) exact)
                         row)
                      flc)))"

record cov_state =
  cs_counts :: day_counts
  cs_fd_label_counts :: label_counts
  cs_sh_counts :: day_counts
  cs_bb_counts :: day_counts

definition SHIFT_VARIANTS :: "string list" where
  "SHIFT_VARIANTS = [''AM'', ''PM'', ''Audit'']"

definition SH_VARIANTS :: "string list" where
  "SH_VARIANTS = [''AM'', ''Midday'', ''PM'', ''Crew'']"

definition BB_VARIANTS :: "string list" where
  "BB_VARIANTS =
     [''5AM'' @ en_dash @ ''12PM'', ''6AM'' @ en_dash @ ''12PM'', ''7AM'' @ en_dash @ ''12PM'']"

definition cov_fd_bump :: "string \<Rightarrow> assignment \<Rightarrow> cov_state \<Rightarrow> py_error + cov_state" where
  "cov_fd_bump variant a st =
     (case incr (a_date a) variant (cs_counts st) of
        Inl err \<Rightarrow> Inl err
      | Inr c \<Rightarrow>
          (case incr_label (a_date a) variant (a_value a) (cs_fd_label_counts st) of
             Inl err \<Rightarrow> Inl err
           | Inr f \<Rightarrow> Inr (st\<lparr>cs_counts := c, cs_fd_label_counts := f\<rparr>)))"

definition cov_fd :: "assignment \<Rightarrow> cov_state \<Rightarrow> py_error + cov_state" where
  "cov_fd a st =
     (if a_value a \<in> set FRONT_DESK_SHIFTS then
        (if startswith (a_value a) ''AM'' then cov_fd_bump ''AM'' a st
         else if startswith (a_value a) ''PM'' then cov_fd_bump ''PM'' a st
         else if startswith (a_value a) ''Audit'' then cov_fd_bump ''Audit'' a st
         else Inr st)
      else Inr st)"

definition cov_sh_bump :: "string \<Rightarrow> assignment \<Rightarrow> cov_state \<Rightarrow> py_error + cov_state" where
  "cov_sh_bump variant a st =
     (case incr (a_date a) variant (cs_sh_counts st) of
        Inl err \<Rightarrow> Inl err
      | Inr c \<Rightarrow> Inr (st\<lparr>cs_sh_counts := c\<rparr>))"

definition cov_sh :: "assignment \<Rightarrow> cov_state \<Rightarrow> py_error + cov_state" where
  "cov_sh a st =
     (if a_value a \<in> set SHUTTLE_SHIFTS then
        (if a_value a = ''AM (3:30AM'' @ en_dash @ ''11:30AM)'' then cov_sh_bump ''AM'' a st
         else if startswith (a_value a) ''Midday'' then cov_sh_bump ''Midday'' a st
         else if startswith (a_value a) ''PM (5:30PM'' then cov_sh_bump ''PM'' a st
         else if startswith (a_value a) ''Crew'' then cov_sh_bump ''Crew'' a st
         else Inr st)
      else Inr st)"

definition cov_bb :: "assignment \<Rightarrow> cov_state \<Rightarrow> py_error + cov_state" where
  "cov_bb a st =
     (if a_value a \<in> set BB_VARIANTS then
        (case incr (a_date a) (a_value a) (cs_bb_counts st) of
           Inl err \<Rightarrow> Inl err
         | Inr c \<Rightarrow> Inr (st\<lparr>cs_bb_counts := c\<rparr>))
      else Inr st)"

text \<open>The body of \<open>for a in rows\<close>.\<close>

definition cov_row :: "assignment \<Rightarrow> cov_state \<Rightarrow> py_error + cov_state" where
  "cov_row a st =
     (if a_value a = [] \<or> is_placeholder (a_value a) then Inr st
      else (case cov_fd a st of
              Inl err \<Rightarrow> Inl err
            | Inr st1 \<Rightarrow>
                (case cov_sh a st1 of
                   Inl err \<Rightarrow> Inl err
                 | Inr st2 \<Rightarrow> cov_bb a st2)))"

text \<open>
  \<open>counts[date_key][variant]\<close> in the loops after the row loop. The dicts have a key for
  every date of the week and every variant from their initialisation on, and no key is
  ever removed, so the defaults below are never used.
\<close>

definition count_of :: "day_counts \<Rightarrow> int \<Rightarrow> string \<Rightarrow> int" where
  "count_of counts date_key variant =
     (case map_of counts date_key of
        None \<Rightarrow> 0
      | Some row \<Rightarrow> (case map_of row variant of None \<Rightarrow> 0 | Some n \<Rightarrow> n))"

definition day_row :: "day_counts \<Rightarrow> int \<Rightarrow> (string \<times> int) list" where
  "day_row counts date_key = (case map_of counts date_key of None \<Rightarrow> [] | Some row \<Rightarrow> row)"

definition exact_of :: "label_counts \<Rightarrow> int \<Rightarrow> string \<Rightarrow> (string \<times> int) list" where
  "exact_of flc date_key variant =
     (case map_of flc date_key of
        None \<Rightarrow> []
      | Some row \<Rightarrow> (case map_of row variant of None \<Rightarrow> [] | Some exact \<Rightarrow> exact))"

definition dup_any :: "label_counts \<Rightarrow> int \<Rightarrow> bool" where
  "dup_any flc date_key =
     list_ex (\<lambda>variant.
                let exact = exact_of flc date_key variant;
                    total = sum_list (map snd exact);
                    distinct_n = length (filter (\<lambda>v. v > 0) (map snd exact))
                in total \<ge> 2 \<and> distinct_n = 1)
       [''AM'', ''PM'', ''Audit'']"

text \<open>The eleven components of the returned tuple are of four kinds.\<close>

datatype cov_item =
  Totals "(int \<times> int) list"
  | Flags "(int \<times> bool) list"
  | Required int
  | Counts day_counts

definition coverage_snapshot_db :: "int \<Rightarrow> db \<Rightarrow> py_error + cov_item list" where
  "coverage_snapshot_db week_id s =
     (case get_week s week_id of
        None \<Rightarrow> Inl AttributeError
      | Some wk \<Rightarrow>
          (let dates = daterange (w_start_date wk) 7;
               init = \<lparr>cs_counts = map (\<lambda>k. (k, map (\<lambda>v. (v, 0)) SHIFT_VARIANTS)) dates,
                       cs_fd_label_counts =
                         map (\<lambda>k. (k, [(''AM'', []), (''PM'', []), (''Audit'', [])])) dates,
                       cs_sh_counts = map (\<lambda>k. (k, map (\<lambda>v. (v, 0)) SH_VARIANTS)) dates,
                       cs_bb_counts = map (\<lambda>k. (k, map (\<lambda>v. (v, 0)) BB_VARIANTS)) dates\<rparr>;
               rows = filter (\<lambda>a. a_week_id a = week_id) (db_assignments s)
           in case fold_err cov_row rows init of
                Inl err \<Rightarrow> Inl err
              | Inr st \<Rightarrow>
                  (let counts = cs_counts st; sh_counts = cs_sh_counts st;
                       bb_counts = cs_bb_counts st;
                       missing =
                         map (\<lambda>k. (k, list_ex (\<lambda>v. count_of counts k v < 2) SHIFT_VARIANTS)) dates;
                       fd_duplicates = map (\<lambda>k. (k, dup_any (cs_fd_label_counts st) k)) dates;
                       total_counts = map (\<lambda>k. (k, sum_list (map snd (day_row counts k)))) dates;
                       sh_missing =
                         map (\<lambda>k. (k, list_ex (\<lambda>v. count_of sh_counts k v < 1) SH_VARIANTS)) dates;
                       bb_missing =
                         map (\<lambda>k. (k, list_ex (\<lambda>v. count_of bb_counts k v < 1) BB_VARIANTS)) dates
                   in Inr [Totals total_counts, Flags missing, Required 6, Counts counts,
                           Flags sh_missing, Required 4, Counts sh_counts,
                           Flags bb_missing, Required 3, Counts bb_counts,
                           Flags fd_duplicates])))"

text \<open>
  \<open>x1, ..., xn = t\<close>: ValueError unless the tuple has exactly \<open>n\<close> components.
\<close>

definition unpack :: "nat \<Rightarrow> 'a list \<Rightarrow> py_error + 'a list" where
  "unpack n t = (if length t = n then Inr t else Inl ValueError)"

section \<open>The endpoints \<open>/timeoff/toggle\<close> and \<open>/assign\<close>\<close>

text \<open>
  A response is a status code and a JSON body. An endpoint returns the committed database
  and either a response or the exception that escapes it.
\<close>

datatype body =
  Error_body string
  | Timeoff_body string "cov_item list" "(int \<times> string list) list"
  | Ok_body "cov_item list" "(int \<times> string list) list"

type_synonym response = "int \<times> body"

definition BASELINE :: int where
  \<comment> \<open>\<open>date(2025, 9, 18)\<close>\<close>
  "BASELINE = 739512"

definition toggle_day :: "bool \<Rightarrow> timeoff \<Rightarrow> week \<Rightarrow> employee \<Rightarrow> int \<Rightarrow> db \<Rightarrow> db" where
  "toggle_day approved to wk emp d s =
     (let in_range = t_from_date to \<le> d \<and> d \<le> t_to_date to in
      case get_assignment s (w_id wk) (e_id emp) d of
        None \<Rightarrow> s
      | Some a \<Rightarrow>
          if approved \<and> in_range then set_value (w_id wk) (e_id emp) d TIME_OFF_LABEL s
          else if \<not> approved \<and> a_value a = TIME_OFF_LABEL \<and> in_range
               then set_value (w_id wk) (e_id emp) d ''Set'' s
               else s)"

text \<open>
  The session's changes reach the database at \<open>s.commit()\<close>. An exception before the commit
  leaves the \<open>with\<close> block, and the session is closed with its changes dropped.
  After the commit the snapshot is unpacked into ten names; the response then reads
  \<open>fd_duplicates\<close>, a name that is bound nowhere in the function or the module.
\<close>

definition toggle_timeoff :: "int \<Rightarrow> bool \<Rightarrow> db \<Rightarrow> db \<times> (py_error + response)" where
  "toggle_timeoff tid approved s =
     (case find (\<lambda>t. t_id t = tid) (db_timeoff s) of
        None \<Rightarrow> (s, Inr (404, Error_body ''Not found''))
      | Some to \<Rightarrow>
          (let s1 = s\<lparr>db_timeoff :=
                        update_first (\<lambda>t. t_id t = tid) (\<lambda>t. t\<lparr>t_approved := approved\<rparr>)
                          (db_timeoff s)\<rparr>;
               week = find (\<lambda>w. w_start_date w = BASELINE) (db_weeks s1);
               emp = find (\<lambda>e. e_name e = t_name to) (db_employees s1)
           in case (case emp of
                      None \<Rightarrow> Inr s1
                    | Some e \<Rightarrow>
                        (case week of
                           None \<Rightarrow> Inl AttributeError
                         | Some wk \<Rightarrow>
                             Inr (fold (toggle_day approved to wk e)
                                    (daterange (w_start_date wk) 7) s1))) of
                Inl err \<Rightarrow> (s, Inl err)
              | Inr s2 \<Rightarrow>
                  (s2,
                   case week of
                     None \<Rightarrow> Inl AttributeError
                   | Some wk \<Rightarrow>
                       (case coverage_snapshot_db (w_id wk) s2 of
                          Inl err \<Rightarrow> Inl err
                        | Inr snap \<Rightarrow>
                            (case unpack 10 snap of
                               Inl err \<Rightarrow> Inl err
                             | Inr names \<Rightarrow> Inl NameError)))))"

text \<open>
  The JSON body of an \<open>/assign\<close> request. The date is the result of parsing the \<open>date\<close>
  field (\<open>None\<close> when \<open>date(y, m, d)\<close> raises); \<open>if week_id:\<close> is false for a missing id and
  for 0.
\<close>

record assign_request =
  rq_section :: string
  rq_employee :: string
  rq_date :: "int option"
  rq_value :: string
  rq_week_id :: "int option"

definition assign_week :: "assign_request \<Rightarrow> db \<Rightarrow> week option" where
  "assign_week rq s =
     (case rq_week_id rq of
        None \<Rightarrow> find (\<lambda>w. w_start_date w = BASELINE) (db_weeks s)
      | Some i \<Rightarrow>
          if i \<noteq> 0 then get_week s i
          else find (\<lambda>w. w_start_date w = BASELINE) (db_weeks s))"

definition assign_respond :: "int \<Rightarrow> db \<Rightarrow> (cov_item list \<Rightarrow> (int \<times> string list) list \<Rightarrow> response)
     \<Rightarrow> py_error + response" where
  "assign_respond week_id s mk =
     (case coverage_snapshot_db week_id s of
        Inl err \<Rightarrow> Inl err
      | Inr snap \<Rightarrow>
          (case unpack 11 snap of
             Inl err \<Rightarrow> Inl err
           | Inr names \<Rightarrow> Inr (mk names (double_booked_snapshot s week_id))))"

definition assign :: "assign_request \<Rightarrow> db \<Rightarrow> db \<times> (py_error + response)" where
  "assign rq s =
     (case assign_week rq s of
        None \<Rightarrow> (s, Inr (404, Error_body ''Week not found''))
      | Some week \<Rightarrow>
     (case find (\<lambda>sec. sec_name sec = rq_section rq) (db_sections s) of
        None \<Rightarrow> (s, Inr (400, Error_body ''Unknown section''))
      | Some sec \<Rightarrow>
     (case find (\<lambda>e. e_name e = rq_employee rq) (db_employees s) of
        None \<Rightarrow> (s, Inr (400, Error_body ''Unknown employee''))
      | Some emp \<Rightarrow>
          if \<not> (e_section_id emp = sec_id sec \<or>
                 find (\<lambda>r. er_employee_id r = e_id emp \<and> er_section_id r = sec_id sec)
                   (db_employee_roles s) \<noteq> None)
          then (s, Inr (400, Error_body ''Employee not allowed for this section''))
          else
     (case rq_date rq of
        None \<Rightarrow> (s, Inr (400, Error_body ''Bad date''))
      | Some dte \<Rightarrow>
     (case get_assignment s (w_id week) (e_id emp) dte of
        None \<Rightarrow> (s, Inr (404, Error_body ''Assignment not found''))
      | Some a \<Rightarrow>
          if has_approved_timeoff (e_name emp) dte s then
            (let s1 = (if a_value a \<noteq> TIME_OFF_LABEL
                       then set_value (w_id week) (e_id emp) dte TIME_OFF_LABEL s else s)
             in (s1, assign_respond (w_id week) s1
                       (\<lambda>snap dbl. (409, Timeoff_body TIME_OFF_LABEL snap dbl))))
          else
            (let s1 = set_value (w_id week) (e_id emp) dte (rq_value rq) s
             in (s1, assign_respond (w_id week) s1 (\<lambda>snap dbl. (200, Ok_body snap dbl)))))))))"

section \<open>Vocabulary of the claims\<close>

text \<open>
  The workers a Front Desk variant step selects: the candidate scan followed by the two
  calls of \<open>pick_best\<close>, as in \<open>fd_variant_step\<close>, without the placement.
\<close>

definition fd_selected ::
  "gen_ctx \<Rightarrow> int \<Rightarrow> int \<Rightarrow> string \<Rightarrow> int list \<Rightarrow> gen_state \<Rightarrow> py_error + int list" where
  "fd_selected ctx week_id d variant pool gs =
     (case fold_err (fd_cand_step ctx week_id d variant) pool ([], gs) of
        Inl err \<Rightarrow> Inl err
      | Inr (cand, gs1) \<Rightarrow>
          if cand = [] then Inr [] else fd_picks ctx gs1 d variant cand 2 [])"

text \<open>The value a worker holds on a date of a week, if the row exists.\<close>

definition value_on :: "db \<Rightarrow> int \<Rightarrow> int \<Rightarrow> int \<Rightarrow> string option" where
  "value_on s w e d = map_option a_value (get_assignment s w e d)"

definition dismissed_on :: "db \<Rightarrow> int \<Rightarrow> int \<Rightarrow> int \<Rightarrow> bool option" where
  "dismissed_on s w e d = map_option a_dismissed_timeoff (get_assignment s w e d)"

text \<open>\<open>a\<close> comes before \<open>b\<close> in a list (first occurrences).\<close>

definition precedes :: "'a \<Rightarrow> 'a \<Rightarrow> 'a list \<Rightarrow> bool" where
  "precedes a b xs =
     (case index_of a xs of
        None \<Rightarrow> False
      | Some i \<Rightarrow> (case index_of b xs of None \<Rightarrow> False | Some j \<Rightarrow> i < j))"

text \<open>Every row stored under a week has a date among the seven days of that week.\<close>

definition week_rows_in_week :: "db \<Rightarrow> week \<Rightarrow> bool" where
  "week_rows_in_week s wk =
     (\<forall>a \<in> set (db_assignments s).
        a_week_id a = w_id wk \<longrightarrow> a_date a \<in> set (daterange (w_start_date wk) 7))"

text \<open>
  The value a worker holds on a date, found as \<open>rest_ok\<close> finds the value of the day
  before: the first row of the worker with that date, whatever its week.
\<close>

definition day_value :: "db \<Rightarrow> int \<Rightarrow> int \<Rightarrow> string option" where
  "day_value s e d =
     map_option a_value (find (\<lambda>a. a_employee_id a = e \<and> a_date a = d) (db_assignments s))"

text \<open>
  The rest rule of claim C1. \<open>fd_label variant v\<close>: \<open>v\<close> is a Front Desk shift of the
  variant; \<open>sh_label variant v\<close>: \<open>v\<close> is a Shuttle shift of the variant.
  \<open>bad_pair pv v\<close>: \<open>v\<close> on the day after \<open>pv\<close> breaks the rule.
\<close>

definition fd_label :: "string \<Rightarrow> string \<Rightarrow> bool" where
  "fd_label variant v = (v \<in> set FRONT_DESK_SHIFTS \<and> \<not> is_placeholder v \<and> startswith v variant)"

definition sh_label :: "string \<Rightarrow> string \<Rightarrow> bool" where
  "sh_label variant v = (v \<in> set SHUTTLE_SHIFTS \<and> \<not> is_placeholder v \<and> startswith v variant)"

definition bad_pair :: "string \<Rightarrow> string \<Rightarrow> bool" where
  "bad_pair pv v =
     (fd_label ''AM'' v \<and> fd_label ''PM'' pv \<or>
      fd_label ''PM'' v \<and> fd_label ''Audit'' pv \<or>
      sh_label ''AM'' v \<and> (sh_label ''PM'' pv \<or> sh_label ''Crew'' pv) \<or>
      sh_label ''Midday'' v \<and> sh_label ''Crew'' pv)"

text \<open>The key of a row: week, worker and date.\<close>

definition akey :: "assignment \<Rightarrow> int \<times> int \<times> int" where
  "akey a = (a_week_id a, a_employee_id a, a_date a)"

text \<open>
  Well-formed weeks: the start dates of the weeks differ by multiples of seven days and are
  distinct (the column is unique), every row belongs to a week that exists and has a date
  among the seven days of that week, and no week holds two rows for one worker and date.
\<close>

definition wf_weeks :: "db \<Rightarrow> bool" where
  "wf_weeks s =
     ((\<forall>w1 \<in> set (db_weeks s). \<forall>w2 \<in> set (db_weeks s).
         (w_start_date w1 - w_start_date w2) mod 7 = 0) \<and>
      distinct (map w_start_date (db_weeks s)) \<and>
      (\<forall>a \<in> set (db_assignments s). \<exists>wk \<in> set (db_weeks s).
         w_id wk = a_week_id a \<and> a_date a \<in> set (daterange (w_start_date wk) 7)) \<and>
      distinct (map akey (db_assignments s)))"

section \<open>Concrete databases used by witnesses and counterexamples\<close>

definition mk_emp :: "int \<Rightarrow> string \<Rightarrow> int \<Rightarrow> int option \<Rightarrow> employee" where
  "mk_emp i n sec sen =
     \<lparr>e_id = i, e_name = n, e_section_id = sec, e_preferred_shift = None, e_seniority = sen,
      e_preferred_shifts_per_week = None, e_max_shifts_per_week = None\<rparr>"

definition mk_row :: "int \<Rightarrow> int \<Rightarrow> int \<Rightarrow> string \<Rightarrow> assignment" where
  "mk_row w e d v =
     \<lparr>a_week_id = w, a_employee_id = e, a_date = d, a_value = v, a_dismissed_timeoff = False\<rparr>"

definition db_c9 :: db where
  "db_c9 =
     \<lparr>db_sections =
        [\<lparr>sec_id = 1, sec_name = ''Front Desk'', sec_required_per_day = Some 6\<rparr>,
         \<lparr>sec_id = 2, sec_name = ''Shuttle'', sec_required_per_day = None\<rparr>],
      db_employees =
        [\<lparr>e_id = 1, e_name = ''Cindy'', e_section_id = 1, e_preferred_shift = None,
          e_seniority = None, e_preferred_shifts_per_week = None,
          e_max_shifts_per_week = None\<rparr>],
      db_employee_roles = [\<lparr>er_employee_id = 1, er_section_id = 2\<rparr>],
      db_availability = [],
      db_weeks = [\<lparr>w_id = 1, w_start_date = 739512\<rparr>],
      db_assignments =
        [\<lparr>a_week_id = 1, a_employee_id = 1, a_date = 739512,
          a_value = ''AM (3:30AM'' @ en_dash @ ''11:30AM)'', a_dismissed_timeoff = False\<rparr>],
      db_timeoff = []\<rparr>"

definition db_c3 :: db where
  "db_c3 =
     \<lparr>db_sections = [\<lparr>sec_id = 1, sec_name = ''Front Desk'', sec_required_per_day = Some 6\<rparr>],
      db_employees = [mk_emp 1 ''Ann'' 1 (Some 1), mk_emp 2 ''Bob'' 1 (Some 2)],
      db_employee_roles = [],
      db_availability = [],
      db_weeks = [\<lparr>w_id = 1, w_start_date = 739512\<rparr>],
      db_assignments = [],
      db_timeoff = []\<rparr>"

text \<open>
  Two Front Desk workers. Both are available for the PM variant on Thursday 2025-09-18, the
  worker named Ryan also on Friday; the rows of these days exist.
\<close>

definition db_c5 :: db where
  "db_c5 =
     \<lparr>db_sections = [\<lparr>sec_id = 1, sec_name = ''Front Desk'', sec_required_per_day = Some 6\<rparr>],
      db_employees = [mk_emp 1 ''Cindy'' 1 None, mk_emp 2 ''Ryan'' 1 None],
      db_employee_roles = [],
      db_availability =
        [\<lparr>ea_employee_id = 1, ea_day_of_week = 3, ea_shift_label = ''PM'', ea_allowed = True\<rparr>,
         \<lparr>ea_employee_id = 2, ea_day_of_week = 3, ea_shift_label = ''PM'', ea_allowed = True\<rparr>,
         \<lparr>ea_employee_id = 2, ea_day_of_week = 4, ea_shift_label = ''PM'', ea_allowed = True\<rparr>],
      db_weeks = [\<lparr>w_id = 1, w_start_date = 739512\<rparr>],
      db_assignments =
        [mk_row 1 1 739512 ''Set'', mk_row 1 2 739512 ''Set'', mk_row 1 2 739513 ''Set''],
      db_timeoff = []\<rparr>"

definition am_early :: string where
  "am_early = ''AM (6:00AM'' @ en_dash @ ''2:00PM)''"

definition pm_early :: string where
  "pm_early = ''PM (2:00PM'' @ en_dash @ ''10:00PM)''"

definition pm_late :: string where
  "pm_late = ''PM (2:15PM'' @ en_dash @ ''10:15PM)''"

definition sh_am :: string where
  "sh_am = ''AM (3:30AM'' @ en_dash @ ''11:30AM)''"

text \<open>
  A one-worker database: Cindy's home department is the Shuttle, she has a secondary role
  at the Front Desk, she is available for the Front Desk AM shift on every weekday, and she
  has approved leave on Saturday 2025-09-20 (ordinal 739514). The week of Thursday
  2025-09-18 (ordinal 739512) exists and is synchronised with the leave request.
\<close>

definition db_demo :: db where
  "db_demo =
     \<lparr>db_sections =
        [\<lparr>sec_id = 1, sec_name = ''Front Desk'', sec_required_per_day = Some 6\<rparr>,
         \<lparr>sec_id = 2, sec_name = ''Shuttle'', sec_required_per_day = None\<rparr>],
      db_employees = [mk_emp 1 ''Cindy'' 2 None],
      db_employee_roles = [\<lparr>er_employee_id = 1, er_section_id = 1\<rparr>],
      db_availability =
        map (\<lambda>i. \<lparr>ea_employee_id = 1, ea_day_of_week = i, ea_shift_label = ''AM'',
                   ea_allowed = True\<rparr>) [0, 1, 2, 3, 4, 5, 6],
      db_weeks = [\<lparr>w_id = 1, w_start_date = 739512\<rparr>],
      db_assignments =
        [mk_row 1 1 739512 ''Set'', mk_row 1 1 739513 ''Set'', mk_row 1 1 739514 TIME_OFF_LABEL,
         mk_row 1 1 739515 ''Set'', mk_row 1 1 739516 ''Set'', mk_row 1 1 739517 ''Set'',
         mk_row 1 1 739518 ''Set''],
      db_timeoff =
        [\<lparr>t_id = 1, t_name = ''Cindy'', t_role = ''Shuttle'', t_from_date = 739514,
          t_to_date = 739514, t_approved = True, t_vacation = False\<rparr>]\<rparr>"

text \<open>The database after a 4-week generation from week 1 (see \<open>demo_generated\<close>).\<close>

definition db_demo_out :: db where
  "db_demo_out =
     db_demo
     \<lparr>db_weeks :=
        [\<lparr>w_id = 1, w_start_date = 739512\<rparr>, \<lparr>w_id = 2, w_start_date = 739519\<rparr>,
         \<lparr>w_id = 3, w_start_date = 739526\<rparr>, \<lparr>w_id = 4, w_start_date = 739533\<rparr>],
      db_assignments :=
        [(mk_row 1 1 739512 am_early),
         (mk_row 1 1 739513 am_early),
         (mk_row 1 1 739514 TIME_OFF_LABEL)\<lparr>a_dismissed_timeoff := True\<rparr>,
         (mk_row 1 1 739515 am_early),
         (mk_row 1 1 739516 am_early),
         (mk_row 1 1 739517 am_early),
         (mk_row 1 1 739518 ''Set''),
         (mk_row 2 1 739519 am_early),
         (mk_row 2 1 739520 am_early),
         (mk_row 2 1 739521 am_early),
         (mk_row 2 1 739522 am_early),
         (mk_row 2 1 739523 am_early),
         (mk_row 2 1 739524 ''Set''),
         (mk_row 2 1 739525 ''Set''),
         (mk_row 3 1 739526 am_early),
         (mk_row 3 1 739527 am_early),
         (mk_row 3 1 739528 am_early),
         (mk_row 3 1 739529 am_early),
         (mk_row 3 1 739530 am_early),
         (mk_row 3 1 739531 ''Set''),
         (mk_row 3 1 739532 ''Set''),
         (mk_row 4 1 739533 am_early),
         (mk_row 4 1 739534 am_early),
         (mk_row 4 1 739535 am_early),
         (mk_row 4 1 739536 am_early),
         (mk_row 4 1 739537 am_early),
         (mk_row 4 1 739538 ''Set''),
         (mk_row 4 1 739539 ''Set'')]\<rparr>"

text \<open>
  A Shuttle worker with a secondary Front Desk role, available for the Shuttle AM shift
  on Thursday and Friday, and six Front Desk workers who are available on Friday only, two
  for each variant.
\<close>

definition db_c4 :: db where
  "db_c4 =
     \<lparr>db_sections =
        [\<lparr>sec_id = 1, sec_name = ''Front Desk'', sec_required_per_day = Some 6\<rparr>,
         \<lparr>sec_id = 2, sec_name = ''Shuttle'', sec_required_per_day = None\<rparr>],
      db_employees =
        [mk_emp 1 ''Cindy'' 2 None, mk_emp 2 ''KC'' 1 None, mk_emp 3 ''Emilyn'' 1 None,
         mk_emp 4 ''Christian'' 1 None, mk_emp 5 ''Troy'' 1 None, mk_emp 6 ''Brian'' 1 None,
         mk_emp 7 ''Tristan'' 1 None],
      db_employee_roles = [\<lparr>er_employee_id = 1, er_section_id = 1\<rparr>],
      db_availability =
        [\<lparr>ea_employee_id = 1, ea_day_of_week = 3, ea_shift_label = sh_am, ea_allowed = True\<rparr>,
         \<lparr>ea_employee_id = 1, ea_day_of_week = 4, ea_shift_label = sh_am, ea_allowed = True\<rparr>,
         \<lparr>ea_employee_id = 2, ea_day_of_week = 4, ea_shift_label = ''AM'', ea_allowed = True\<rparr>,
         \<lparr>ea_employee_id = 3, ea_day_of_week = 4, ea_shift_label = ''AM'', ea_allowed = True\<rparr>,
         \<lparr>ea_employee_id = 4, ea_day_of_week = 4, ea_shift_label = ''PM'', ea_allowed = True\<rparr>,
         \<lparr>ea_employee_id = 5, ea_day_of_week = 4, ea_shift_label = ''PM'', ea_allowed = True\<rparr>,
         \<lparr>ea_employee_id = 6, ea_day_of_week = 4, ea_shift_label = ''Audit'', ea_allowed = True\<rparr>,
         \<lparr>ea_employee_id = 7, ea_day_of_week = 4, ea_shift_label = ''Audit'', ea_allowed = True\<rparr>],
      db_weeks = [\<lparr>w_id = 1, w_start_date = 739512\<rparr>],
      db_assignments =
        map (\<lambda>i. mk_row 1 1 (739512 + i) ''Set'') [0, 1, 2, 3, 4, 5, 6] @
        map (\<lambda>e. mk_row 1 e 739513 ''Set'') [2, 3, 4, 5, 6, 7],
      db_timeoff = []\<rparr>"

definition wk1 :: week where
  "wk1 = \<lparr>w_id = 1, w_start_date = 739512\<rparr>"



text \<open>
  One Front Desk worker, available for the PM variant on Thursdays and for the AM variant
  on Fridays.
\<close>

definition db_c1 :: db where
  "db_c1 =
     \<lparr>db_sections = [\<lparr>sec_id = 1, sec_name = ''Front Desk'', sec_required_per_day = Some 6\<rparr>],
      db_employees = [mk_emp 1 ''Cindy'' 1 None],
      db_employee_roles = [],
      db_availability =
        [\<lparr>ea_employee_id = 1, ea_day_of_week = 3, ea_shift_label = ''PM'', ea_allowed = True\<rparr>,
         \<lparr>ea_employee_id = 1, ea_day_of_week = 4, ea_shift_label = ''AM'', ea_allowed = True\<rparr>],
      db_weeks = [\<lparr>w_id = 1, w_start_date = 739512\<rparr>],
      db_assignments = map (\<lambda>i. mk_row 1 1 (739512 + i) ''Set'') [0, 1, 2, 3, 4, 5, 6],
      db_timeoff = []\<rparr>"

section \<open>Auxiliary notions of the proofs\<close>

definition key_preserving :: "(assignment \<Rightarrow> assignment) \<Rightarrow> bool" where
  "key_preserving f =
     (\<forall>a. a_week_id (f a) = a_week_id a \<and> a_employee_id (f a) = a_employee_id a \<and>
          a_date (f a) = a_date a)"

definition evolves :: "db \<Rightarrow> db \<Rightarrow> bool" where
  "evolves s s' =
     (db_sections s' = db_sections s \<and> db_employees s' = db_employees s \<and>
      db_employee_roles s' = db_employee_roles s \<and> db_availability s' = db_availability s \<and>
      db_timeoff s' = db_timeoff s \<and> prefix (db_weeks s) (db_weeks s') \<and>
      prefix (map akey (db_assignments s)) (map akey (db_assignments s')))"

text \<open>What leave synchronisation leaves behind, relative to the state \<open>s\<close> it started from.\<close>

definition synced_from :: "db \<Rightarrow> int \<Rightarrow> int list \<Rightarrow> employee list \<Rightarrow> db \<Rightarrow> bool" where
  "synced_from s w days emps t =
     (\<forall>emp \<in> set emps. \<forall>d \<in> set days.
        has_approved_timeoff (e_name emp) d s \<and> value_on s w (e_id emp) d \<noteq> None \<longrightarrow>
        value_on t w (e_id emp) d = Some TIME_OFF_LABEL)"

definition val_view :: "assignment \<Rightarrow> int \<times> int \<times> int \<times> string" where
  "val_view a = (a_week_id a, a_employee_id a, a_date a, a_value a)"

definition same_values :: "db \<Rightarrow> db \<Rightarrow> bool" where
  "same_values s s' =
     (db_timeoff s' = db_timeoff s \<and>
      map val_view (db_assignments s') = map val_view (db_assignments s))"

text \<open>
  The condition of the amended claim C7 for the Front Desk scan and for the Breakfast Bar
  scan: the worker is still unassigned on the date, is not withheld from the scan, passes
  the availability and rest checks of the slot, and has a leave request (approved or not)
  that covers the date.
\<close>

definition fd_dismiss_cond :: "gen_ctx \<Rightarrow> db \<Rightarrow> int \<Rightarrow> int \<Rightarrow> string \<Rightarrow> int \<Rightarrow> bool" where
  "fd_dismiss_cond ctx s w d variant eid =
     (value_on s w eid d = Some ''Set'' \<and>
      is_available eid ''Front Desk'' variant d ctx \<and>
      rest_ok s eid d ''Front Desk'' variant \<and>
      has_any_timeoff (emp_name_get ctx eid) d s)"

definition bb_dismiss_cond ::
  "gen_ctx \<Rightarrow> (int \<Rightarrow> int list option) \<Rightarrow> db \<Rightarrow> int \<Rightarrow> int \<Rightarrow> string \<Rightarrow> int \<Rightarrow> bool" where
  "bb_dismiss_cond ctx reserved s w d shift eid =
     (\<not> is_reserved reserved d eid \<and>
      \<not> (fd_missing_on ctx s w d \<and> eid \<in> set (fd_emp_ids ctx)) \<and>
      value_on s w eid d = Some ''Set'' \<and>
      is_available eid ''Breakfast Bar'' shift d ctx \<and>
      rest_ok s eid d ''Breakfast Bar'' shift \<and>
      has_any_timeoff (emp_name_get ctx eid) d s)"

text \<open>The value found by the query of \<open>rest_ok\<close> for the day before.\<close>

definition prev_value :: "db \<Rightarrow> int \<Rightarrow> int \<Rightarrow> string option" where
  "prev_value s eid dte =
     map_option a_value
       (find (\<lambda>a. a_employee_id a = eid \<and> a_date a = dte - 1) (db_assignments s))"

subsection \<open>A day of a pass as a sequence of guarded writes\<close>

definition role_ids :: "gen_ctx \<Rightarrow> string \<Rightarrow> int list" where
  "role_ids ctx role =
     (if role = ''Front Desk'' then fd_emp_ids ctx
      else if role = ''Shuttle'' then sh_emp_ids ctx else bb_emp_ids ctx)"

definition label_ok :: "string \<Rightarrow> string \<Rightarrow> string \<Rightarrow> bool" where
  "label_ok role label v =
     (if role = ''Front Desk'' then (\<exists>opts. (label, opts) \<in> set FD_VARIANTS \<and> v \<in> set opts)
      else if role = ''Shuttle'' then v = label \<and> label \<in> set SH_PASS_VARIANTS
      else v = label \<and> label \<in> set BB_PASS_SHIFTS)"

definition cap_check :: "gen_ctx \<Rightarrow> gen_state \<Rightarrow> int \<Rightarrow> string \<Rightarrow> bool" where
  "cap_check ctx gs p role =
     (\<exists>maxw. effective_max_for_role ctx p role = Inr maxw \<and>
             (\<forall>m. maxw = Some m \<longrightarrow> assigned_counts gs p < m))"

text \<open>
  What one day of one pass does to the run state, seen from outside: it sets dismissed
  flags, and it gives a shift to a worker who is unassigned that day, passes the rest rule
  and has not reached the weekly cap of the department.
\<close>

inductive day_reach :: "gen_ctx \<Rightarrow> int \<Rightarrow> string \<Rightarrow> int \<Rightarrow> gen_state \<Rightarrow> gen_state \<Rightarrow> bool"
  for ctx :: gen_ctx and w :: int and role :: string and d :: int and gs :: gen_state
where
  start: "day_reach ctx w role d gs gs"
| mark: "day_reach ctx w role d gs gs1 \<Longrightarrow>
         day_reach ctx w role d gs (gs1\<lparr>gs_db := mark_dismissed w e d (gs_db gs1)\<rparr>)"
| assign: "day_reach ctx w role d gs gs1 \<Longrightarrow>
           value_on (gs_db gs1) w p d = Some ''Set'' \<Longrightarrow>
           rest_ok (gs_db gs1) p d role label \<Longrightarrow>
           label_ok role label v \<Longrightarrow>
           cap_check ctx gs1 p role \<Longrightarrow>
           p \<in> set (role_ids ctx role) \<Longrightarrow>
           day_reach ctx w role d gs
             (gs1\<lparr>gs_db := set_value w p d v (gs_db gs1),
                  assigned_counts := (assigned_counts gs1)(p := assigned_counts gs1 p + 1),
                  last_token_per_role := lt\<rparr>)"

subsection \<open>Weekly counts and caps\<close>

text \<open>
  The number of active (neither empty, nor "Set", nor "TIME OFF") values a worker holds in
  the rows of a week.
\<close>

definition week_count :: "db \<Rightarrow> int \<Rightarrow> int \<Rightarrow> nat" where
  "week_count s w e =
     length (filter (\<lambda>a. a_week_id a = w \<and> a_employee_id a = e \<and> a_value a \<noteq> [] \<and>
                         \<not> is_placeholder (a_value a)) (db_assignments s))"

text \<open>
  The weekly bound that the passes enforce together: the explicit maximum when there is one (0 when it is
  negative); otherwise none for a worker the Breakfast Bar pass may pick, 5 for a worker
  the Front Desk pass may pick, 4 for a worker only the Shuttle pass may pick.
\<close>

definition week_cap :: "gen_ctx \<Rightarrow> int \<Rightarrow> int option" where
  "week_cap ctx eid =
     (case emp_info ctx eid of
        None \<Rightarrow> Some 0
      | Some info \<Rightarrow>
          (case ei_max_per_week info of
             Some m \<Rightarrow> Some (max m 0)
           | None \<Rightarrow>
               if eid \<in> set (bb_emp_ids ctx) then None
               else if eid \<in> set (fd_emp_ids ctx) then Some 5
               else if eid \<in> set (sh_emp_ids ctx) then Some 4
               else Some 0))"

definition cap_ok :: "gen_ctx \<Rightarrow> int \<Rightarrow> int \<Rightarrow> bool" where
  "cap_ok ctx eid n = (case week_cap ctx eid of None \<Rightarrow> True | Some c \<Rightarrow> n \<le> c)"

definition cap_inv :: "gen_ctx \<Rightarrow> int \<Rightarrow> int \<Rightarrow> gen_state \<Rightarrow> bool" where
  "cap_inv ctx w eid gs =
     (0 \<le> assigned_counts gs eid \<and> cap_ok ctx eid (assigned_counts gs eid) \<and>
      int (week_count (gs_db gs) w eid) \<le> assigned_counts gs eid)"

definition week_inv :: "gen_ctx \<Rightarrow> int \<Rightarrow> int \<Rightarrow> gen_state \<Rightarrow> gen_state \<Rightarrow> bool" where
  "week_inv ctx w eid gs0 gs =
     (cap_inv ctx w eid gs \<and>
      (\<forall>w' e. w' \<noteq> w \<longrightarrow> week_count (gs_db gs) w' e = week_count (gs_db gs0) w' e))"

text \<open>The bound holds for the rows of week id \<open>w\<close>.\<close>

definition bounded_week :: "gen_ctx \<Rightarrow> int \<Rightarrow> db \<Rightarrow> int \<Rightarrow> bool" where
  "bounded_week ctx eid s w = cap_ok ctx eid (int (week_count s w eid))"

subsection \<open>Coverage snapshot and endpoints\<close>

definition has_keys :: "int list \<Rightarrow> string list \<Rightarrow> (int \<times> (string \<times> 'a) list) list \<Rightarrow> bool" where
  "has_keys dates variants counts =
     (\<forall>k \<in> set dates. \<exists>row. map_of counts k = Some row \<and> (\<forall>v \<in> set variants. map_of row v \<noteq> None))"

definition cov_ok :: "int list \<Rightarrow> cov_state \<Rightarrow> bool" where
  "cov_ok dates st =
     (has_keys dates SHIFT_VARIANTS (cs_counts st) \<and>
      has_keys dates SHIFT_VARIANTS (cs_fd_label_counts st) \<and>
      has_keys dates SH_VARIANTS (cs_sh_counts st) \<and>
      has_keys dates BB_VARIANTS (cs_bb_counts st))"

definition toggled_value :: "bool \<Rightarrow> string \<Rightarrow> string" where
  "toggled_value approved v =
     (if approved then TIME_OFF_LABEL else if v = TIME_OFF_LABEL then ''Set'' else v)"

definition toggle_committed :: "int \<Rightarrow> bool \<Rightarrow> timeoff \<Rightarrow> week \<Rightarrow> db \<Rightarrow> db" where
  "toggle_committed tid approved to wk s =
     (let s1 = s\<lparr>db_timeoff :=
                   update_first (\<lambda>t. t_id t = tid) (\<lambda>t. t\<lparr>t_approved := approved\<rparr>)
                     (db_timeoff s)\<rparr>
      in case find (\<lambda>e. e_name e = t_name to) (db_employees s) of
           None \<Rightarrow> s1
         | Some e \<Rightarrow> fold (toggle_day approved to wk e) (daterange (w_start_date wk) 7) s1)"


subsection \<open>The rest rule along the generator\<close>

definition in_dept :: "string \<Rightarrow> string \<Rightarrow> bool" where
  "in_dept role v = (v \<in> set (section_shifts role) \<and> \<not> is_placeholder v)"

definition rest_rule :: "db \<Rightarrow> int \<Rightarrow> int \<Rightarrow> bool" where
  "rest_rule s lo hi =
     (\<forall>e d pv v. lo \<le> d \<and> d + 1 < hi \<and> day_value s e d = Some pv \<and>
                 day_value s e (d + 1) = Some v \<longrightarrow> \<not> bad_pair pv v)"

definition fresh :: "string \<Rightarrow> db \<Rightarrow> int \<Rightarrow> int \<Rightarrow> bool" where
  "fresh role s e d = (\<forall>x. day_value s e d = Some x \<longrightarrow> \<not> in_dept role x)"

definition is_dept :: "string \<Rightarrow> bool" where
  "is_dept role = (role = ''Front Desk'' \<or> role = ''Shuttle'' \<or> role = ''Breakfast Bar'')"

text \<open>
  A state relaxes another when every day value is what it was or a placeholder.
\<close>

definition relaxes :: "db \<Rightarrow> db \<Rightarrow> bool" where
  "relaxes s s' =
     (\<forall>e d. day_value s' e d = day_value s e d \<or>
            (\<exists>x. day_value s' e d = Some x \<and> is_placeholder x))"

definition rest_inv :: "(string \<Rightarrow> int set) \<Rightarrow> int \<Rightarrow> int \<Rightarrow> db \<Rightarrow> bool" where
  "rest_inv Fr lo hi s =
     (rest_rule s lo hi \<and> (\<forall>r e d. d \<in> Fr r \<longrightarrow> fresh r s e d))"

definition same_keys :: "db \<Rightarrow> db \<Rightarrow> bool" where
  "same_keys s s' =
     (db_weeks s' = db_weeks s \<and> map akey (db_assignments s') = map akey (db_assignments s))"

text \<open>
  The days a pass still has to visit: each day is visited once, and the day after a day is
  visited later or lies beyond \<open>hi\<close>.
\<close>

fun chain :: "int \<Rightarrow> int list \<Rightarrow> bool" where
  "chain hi [] = True"
| "chain hi (x # rest) = ((x + 1 \<in> set rest \<or> hi \<le> x + 1) \<and> x \<notin> set rest \<and> chain hi rest)"

section \<open>The label sets of the three departments\<close>

lemma label_sets_disjoint:
  "set FRONT_DESK_SHIFTS \<inter> set SHUTTLE_SHIFTS = {''Set'', TIME_OFF_LABEL}"
  "set FRONT_DESK_SHIFTS \<inter> set BREAKFAST_SHIFTS = {''Set'', TIME_OFF_LABEL}"
  "set SHUTTLE_SHIFTS \<inter> set BREAKFAST_SHIFTS = {''Set'', TIME_OFF_LABEL}"
  by (simp_all add: FRONT_DESK_SHIFTS_def SHUTTLE_SHIFTS_def BREAKFAST_SHIFTS_def
      TIME_OFF_LABEL_def en_dash_def)

lemma placeholder_of_two_sets:
  "v \<in> set FRONT_DESK_SHIFTS \<Longrightarrow> v \<in> set SHUTTLE_SHIFTS \<Longrightarrow> is_placeholder v"
  "v \<in> set FRONT_DESK_SHIFTS \<Longrightarrow> v \<in> set BREAKFAST_SHIFTS \<Longrightarrow> is_placeholder v"
  "v \<in> set SHUTTLE_SHIFTS \<Longrightarrow> v \<in> set BREAKFAST_SHIFTS \<Longrightarrow> is_placeholder v"
proof -
  have *: "v \<in> A \<Longrightarrow> v \<in> B \<Longrightarrow> A \<inter> B = {''Set'', TIME_OFF_LABEL} \<Longrightarrow> is_placeholder v"
    for A B
    unfolding is_placeholder_def by blast
  show "v \<in> set FRONT_DESK_SHIFTS \<Longrightarrow> v \<in> set SHUTTLE_SHIFTS \<Longrightarrow> is_placeholder v"
    by (rule * [OF _ _ label_sets_disjoint(1)])
  show "v \<in> set FRONT_DESK_SHIFTS \<Longrightarrow> v \<in> set BREAKFAST_SHIFTS \<Longrightarrow> is_placeholder v"
    by (rule * [OF _ _ label_sets_disjoint(2)])
  show "v \<in> set SHUTTLE_SHIFTS \<Longrightarrow> v \<in> set BREAKFAST_SHIFTS \<Longrightarrow> is_placeholder v"
    by (rule * [OF _ _ label_sets_disjoint(3)])
qed

lemma section_shifts_cases:
  assumes "v \<in> set (section_shifts n)"
  obtains "n = ''Breakfast Bar''" "v \<in> set BREAKFAST_SHIFTS"
  | "n = ''Front Desk''" "v \<in> set FRONT_DESK_SHIFTS"
  | "n = ''Shuttle''" "v \<in> set SHUTTLE_SHIFTS"
  using assms unfolding section_shifts_def by (simp split: if_splits)

lemma section_shifts_unique:
  assumes "\<not> is_placeholder v"
    and "v \<in> set (section_shifts n)" and "v \<in> set (section_shifts m)"
  shows "n = m"
  using assms(2)
proof (cases rule: section_shifts_cases)
  case 1
  from assms(3) show ?thesis
    by (cases rule: section_shifts_cases) (use 1 assms(1) placeholder_of_two_sets in blast)+
next
  case 2
  from assms(3) show ?thesis
    by (cases rule: section_shifts_cases) (use 2 assms(1) placeholder_of_two_sets in blast)+
next
  case 3
  from assms(3) show ?thesis
    by (cases rule: section_shifts_cases) (use 3 assms(1) placeholder_of_two_sets in blast)+
qed

lemma filter_distinct_le_one:
  assumes "distinct xs" and "\<And>x y. x \<in> set xs \<Longrightarrow> y \<in> set xs \<Longrightarrow> P x \<Longrightarrow> P y \<Longrightarrow> x = y"
  shows "length (filter P xs) \<le> 1"
  using assms
proof (induction xs)
  case Nil
  then show ?case by simp
next
  case (Cons x xs)
  show ?case
  proof (cases "P x")
    case True
    have "filter P xs = []"
    proof (rule ccontr)
      assume "filter P xs \<noteq> []"
      then obtain y where y: "y \<in> set xs" "P y"
        by (metis filter_False)
      with Cons.prems(2)[of x y] True have "x = y" by simp
      with y Cons.prems(1) show False by simp
    qed
    with True show ?thesis by simp
  next
    case False
    with Cons show ?thesis by simp
  qed
qed

lemma active_sections_le_one:
  "\<not> is_placeholder v \<Longrightarrow> active_sections s eid v \<le> 1"
  unfolding active_sections_def
  by (rule filter_distinct_le_one) (auto simp: emp_sections_def dest: section_shifts_unique)

lemma double_booked_day_empty: "double_booked_day s week_id emp d [] = []"
  using active_sections_le_one[of _ s "e_id emp"]
  by (auto simp: double_booked_day_def split: option.splits dest!: leD)

lemma double_booked_emp_empty: "double_booked_emp s wk week_id eid [] = []"
proof -
  have "fold (double_booked_day s week_id emp) ds [] = []" for emp ds
    by (induction ds) (simp_all add: double_booked_day_empty)
  then show ?thesis
    by (simp add: double_booked_emp_def split: option.splits)
qed

lemma double_booked_fold_empty: "fold (double_booked_emp s wk week_id) eids [] = []"
  by (induction eids) (simp_all add: double_booked_emp_empty)


section \<open>Row lookups and row updates\<close>

lemma find_update_first_same:
  "(\<And>x. P x \<Longrightarrow> P (f x)) \<Longrightarrow> find P (update_first P f xs) = map_option f (find P xs)"
  by (induction xs) auto

lemma find_update_first_other:
  "(\<And>x. P x \<Longrightarrow> \<not> Q x) \<Longrightarrow> (\<And>x. P x \<Longrightarrow> \<not> Q (f x)) \<Longrightarrow>
   find Q (update_first P f xs) = find Q xs"
  by (induction xs) auto

lemma key_preserving_value [simp]: "key_preserving (\<lambda>a. a\<lparr>a_value := v\<rparr>)"
  by (simp add: key_preserving_def)

lemma key_preserving_dismissed [simp]: "key_preserving (\<lambda>a. a\<lparr>a_dismissed_timeoff := b\<rparr>)"
  by (simp add: key_preserving_def)

lemma get_assignment_update:
  assumes "key_preserving f"
  shows "get_assignment (update_assignment w e d f s) w' e' d' =
           (if w' = w \<and> e' = e \<and> d' = d then map_option f (get_assignment s w e d)
            else get_assignment s w' e' d')"
proof (cases "w' = w \<and> e' = e \<and> d' = d")
  case True
  with assms show ?thesis
    by (simp add: get_assignment_def update_assignment_def key_preserving_def
        find_update_first_same)
next
  case False
  have "find (\<lambda>a. a_week_id a = w' \<and> a_employee_id a = e' \<and> a_date a = d')
          (update_first (\<lambda>a. a_week_id a = w \<and> a_employee_id a = e \<and> a_date a = d) f
             (db_assignments s)) =
        find (\<lambda>a. a_week_id a = w' \<and> a_employee_id a = e' \<and> a_date a = d') (db_assignments s)"
    by (rule find_update_first_other) (use False assms in \<open>auto simp: key_preserving_def\<close>)
  with False show ?thesis
    by (auto simp: get_assignment_def update_assignment_def)
qed

lemma value_on_set_value:
  "value_on (set_value w e d v s) w' e' d' =
     (if w' = w \<and> e' = e \<and> d' = d then map_option (\<lambda>_. v) (value_on s w e d)
      else value_on s w' e' d')"
  by (simp add: value_on_def set_value_def get_assignment_update option.map_comp comp_def)

lemma value_on_mark_dismissed:
  "value_on (mark_dismissed w e d s) w' e' d' = value_on s w' e' d'"
  by (cases "get_assignment s w e d")
     (simp_all add: value_on_def mark_dismissed_def get_assignment_update)

lemma update_assignment_other_fields [simp]:
  "db_sections (update_assignment w e d f s) = db_sections s"
  "db_employees (update_assignment w e d f s) = db_employees s"
  "db_employee_roles (update_assignment w e d f s) = db_employee_roles s"
  "db_availability (update_assignment w e d f s) = db_availability s"
  "db_weeks (update_assignment w e d f s) = db_weeks s"
  "db_timeoff (update_assignment w e d f s) = db_timeoff s"
  by (simp_all add: update_assignment_def)

section \<open>Ranking\<close>

lemma keyed_Inr:
  "keyed f xs = Inr kxs \<Longrightarrow> map snd kxs = xs \<and> (\<forall>(k, x) \<in> set kxs. f x = Inr k)"
  by (induction xs arbitrary: kxs) (auto split: sum.splits)

lemma index_of_None: "index_of x xs = None \<longleftrightarrow> x \<notin> set xs"
  by (induction xs) (auto split: option.splits)

lemma index_of_Some_mem: "index_of x xs = Some i \<Longrightarrow> x \<in> set xs"
  by (induction xs arbitrary: i) (auto split: if_splits option.splits)

lemma precedes_Cons:
  "precedes a b (x # xs) =
     (if x = a then a \<noteq> b \<and> b \<in> set xs else x \<noteq> b \<and> precedes a b xs)"
  by (auto simp: precedes_def index_of_None split: option.splits dest: index_of_Some_mem)

lemma sorted_keys_precede:
  assumes "sorted (map fst L)" and "\<forall>(k, x) \<in> set L. k = K x"
    and "a \<in> snd ` set L" and "b \<in> snd ` set L" and "K a < K b"
  shows "precedes a b (map snd L)"
  using assms
proof (induction L)
  case Nil
  then show ?case by simp
next
  case (Cons p L)
  obtain k x where p: "p = (k, x)" by (cases p)
  from Cons.prems(2) p have k: "k = K x" by simp
  from Cons.prems(5) have ne: "a \<noteq> b" by auto
  show ?case
  proof (cases "x = a")
    case True
    with Cons.prems(4) ne p have "b \<in> snd ` set L" by auto
    with True ne p show ?thesis by (simp add: precedes_Cons)
  next
    case False
    with Cons.prems(3) p have aL: "a \<in> snd ` set L" by auto
    then obtain ka where "(ka, a) \<in> set L" by force
    with Cons.prems(1,2) p k have le: "K x \<le> K a" by fastforce
    with Cons.prems(5) have xb: "x \<noteq> b" by auto
    with Cons.prems(4) p have bL: "b \<in> snd ` set L" by auto
    from Cons.prems(1,2) have "sorted (map fst L)" "\<forall>(k, x) \<in> set L. k = K x" by auto
    from Cons.IH[OF this aL bL Cons.prems(5)] False xb p show ?thesis
      by (simp add: precedes_Cons)
  qed
qed

lemma rank_candidates_precedes:
  assumes "rank_candidates ctx gs role label filtered = Inr ranked"
    and "a \<in> set filtered" and "b \<in> set filtered"
    and "key_fn ctx gs role label a = Inr ka" and "key_fn ctx gs role label b = Inr kb"
    and "ka < kb"
  shows "precedes a b ranked"
proof -
  from assms(1) obtain kxs where kxs: "keyed (key_fn ctx gs role label) filtered = Inr kxs"
    and ranked: "ranked = map snd (sort_key fst kxs)"
    by (auto simp: rank_candidates_def split: sum.splits)
  define K where "K x = projr (key_fn ctx gs role label x)" for x
  from keyed_Inr[OF kxs] have ms: "map snd kxs = filtered"
    and ks: "\<forall>(k, x) \<in> set kxs. k = K x"
    by (auto simp: K_def)
  have "snd ` set kxs = set filtered" using ms by (metis set_map)
  with assms(2,3) have 1: "a \<in> snd ` set (sort_key fst kxs)"
    and 2: "b \<in> snd ` set (sort_key fst kxs)"
    by simp_all
  have 3: "sorted (map fst (sort_key fst kxs))" by (rule sorted_sort_key)
  have 4: "\<forall>(k, x) \<in> set (sort_key fst kxs). k = K x" using ks by simp
  have 5: "K a < K b" using assms(4,5,6) by (simp add: K_def)
  show ?thesis unfolding ranked by (rule sorted_keys_precede[OF 3 4 1 2 5])
qed

section \<open>Folds\<close>

lemma fold_err_induct:
  assumes "fold_err f xs s = Inr s'" and "P s"
    and "\<And>x t t'. x \<in> set xs \<Longrightarrow> P t \<Longrightarrow> f x t = Inr t' \<Longrightarrow> P t'"
  shows "P s'"
  using assms
proof (induction xs arbitrary: s)
  case Nil
  then show ?case by simp
next
  case (Cons x xs)
  from Cons.prems(1) obtain t where t: "f x s = Inr t" and r: "fold_err f xs t = Inr s'"
    by (auto split: sum.splits)
  have "P t" by (rule Cons.prems(3)[OF _ Cons.prems(2) t]) simp
  then show ?case
    by (rule Cons.IH[OF r]) (rule Cons.prems(3), auto)
qed

lemma fold_induct:
  assumes "P s" and "\<And>x t. x \<in> set xs \<Longrightarrow> P t \<Longrightarrow> P (f x t)"
  shows "P (fold f xs s)"
  using assms
  by (induction xs arbitrary: s) auto

lemma fold_id: "(\<And>x. x \<in> set xs \<Longrightarrow> f x s = s) \<Longrightarrow> fold f xs s = s"
  by (induction xs) auto

section \<open>The frame of the database operations\<close>

lemma evolves_refl [simp]: "evolves s s"
  by (simp add: evolves_def)

lemma evolves_trans: "evolves s t \<Longrightarrow> evolves t u \<Longrightarrow> evolves s u"
  by (auto simp: evolves_def)

lemma map_akey_update_first:
  "key_preserving f \<Longrightarrow> map akey (update_first P f xs) = map akey xs"
  by (induction xs) (auto simp: akey_def key_preserving_def)

lemma evolves_update_assignment:
  "key_preserving f \<Longrightarrow> evolves s (update_assignment w e d f s)"
  by (simp add: evolves_def update_assignment_def map_akey_update_first)

lemma evolves_set_value [simp]: "evolves s (set_value w e d v s)"
  by (simp add: set_value_def evolves_update_assignment)

lemma evolves_mark_dismissed [simp]: "evolves s (mark_dismissed w e d s)"
  by (simp add: mark_dismissed_def evolves_update_assignment)

lemma evolves_ensure_assignment [simp]: "evolves s (ensure_assignment w e d s)"
  by (simp add: ensure_assignment_def evolves_def split: option.splits)

lemma evolves_reset_week [simp]: "evolves s (reset_week w s)"
proof -
  have "map akey (map (\<lambda>a. if a_week_id a = w
                   then a\<lparr>a_value := ''Set'', a_dismissed_timeoff := False\<rparr> else a) xs)
        = map akey xs" for xs
    by (induction xs) (simp_all add: akey_def)
  then show ?thesis by (simp add: reset_week_def evolves_def del: map_map)
qed

lemma find_Some_append: "find P xs = Some x \<Longrightarrow> find P (xs @ zs) = Some x"
  by (induction xs) (auto split: if_splits)

lemma find_Some_prefix: "prefix xs ys \<Longrightarrow> find P xs = Some x \<Longrightarrow> find P ys = Some x"
  by (auto elim!: prefixE simp: find_Some_append)

lemma evolves_get_week: "evolves s s' \<Longrightarrow> get_week s i = Some wk \<Longrightarrow> get_week s' i = Some wk"
  by (auto simp: evolves_def get_week_def intro: find_Some_prefix)

lemma get_assignment_exists:
  "get_assignment s w e d \<noteq> None \<longleftrightarrow> (w, e, d) \<in> set (map akey (db_assignments s))"
  by (auto simp: get_assignment_def find_None_iff akey_def)

lemma evolves_row_exists:
  "evolves s s' \<Longrightarrow> value_on s w e d \<noteq> None \<Longrightarrow> value_on s' w e d \<noteq> None"
  unfolding value_on_def evolves_def
  using get_assignment_exists set_mono_prefix by (metis (no_types, lifting) option.map_disc_iff subsetD)

lemma evolves_has_approved:
  "evolves s s' \<Longrightarrow> has_approved_timeoff n d s' = has_approved_timeoff n d s"
  by (simp add: evolves_def has_approved_timeoff_def)

lemma evolves_has_any:
  "evolves s s' \<Longrightarrow> has_any_timeoff n d s' = has_any_timeoff n d s"
  by (simp add: evolves_def has_any_timeoff_def)

section \<open>Leave synchronisation\<close>

lemma value_on_sync_day:
  "value_on (sync_day w emp d s) w' e' d' =
     (if w' = w \<and> e' = e_id emp \<and> d' = d \<and> has_approved_timeoff (e_name emp) d s \<and>
         value_on s w (e_id emp) d \<noteq> None
      then Some TIME_OFF_LABEL else value_on s w' e' d')"
  by (auto simp: sync_day_def value_on_set_value split: option.splits)
     (auto simp: value_on_def)

lemma evolves_sync_day [simp]: "evolves s (sync_day w emp d s)"
  by (simp add: sync_day_def split: option.splits)

lemma sync_day_id:
  "has_approved_timeoff (e_name emp) d s \<longrightarrow>
     value_on s w (e_id emp) d = None \<or> value_on s w (e_id emp) d = Some TIME_OFF_LABEL \<Longrightarrow>
   sync_day w emp d s = s"
  by (auto simp: sync_day_def value_on_def split: option.splits)

lemma sync_day_keeps:
  "value_on s w' e' d' = Some TIME_OFF_LABEL \<Longrightarrow>
   value_on (sync_day w emp d s) w' e' d' = Some TIME_OFF_LABEL"
  "value_on s w' e' d' = None \<Longrightarrow> value_on (sync_day w emp d s) w' e' d' = None"
  by (auto simp: value_on_sync_day)

lemma sync_emp_keeps:
  "value_on s w' e' d' = Some TIME_OFF_LABEL \<Longrightarrow>
   value_on (sync_emp w days emp s) w' e' d' = Some TIME_OFF_LABEL"
  "value_on s w' e' d' = None \<Longrightarrow> value_on (sync_emp w days emp s) w' e' d' = None"
  unfolding sync_emp_def
  by (rule fold_induct; simp add: sync_day_keeps)+

lemma evolves_sync_emp [simp]: "evolves s (sync_emp w days emp s)"
  unfolding sync_emp_def
  by (rule fold_induct) (auto intro: evolves_trans)

lemma sync_emp_post:
  assumes "d \<in> set days" and "has_approved_timeoff (e_name emp) d s"
    and "value_on s w (e_id emp) d \<noteq> None"
  shows "value_on (sync_emp w days emp s) w (e_id emp) d = Some TIME_OFF_LABEL"
  using assms unfolding sync_emp_def
proof (induction days arbitrary: s)
  case Nil
  then show ?case by simp
next
  case (Cons x days)
  let ?s1 = "sync_day w emp x s"
  have ev: "evolves s ?s1" by simp
  show ?case
  proof (cases "x = d")
    case True
    with Cons.prems have "value_on ?s1 w (e_id emp) d = Some TIME_OFF_LABEL"
      by (simp add: value_on_sync_day)
    then show ?thesis
      using sync_emp_keeps(1)[of ?s1 w "e_id emp" d w days emp] by (simp add: sync_emp_def)
  next
    case False
    with Cons.prems have "d \<in> set days" by simp
    moreover have "has_approved_timeoff (e_name emp) d ?s1"
      using Cons.prems(2) by (simp add: evolves_has_approved[OF ev])
    moreover have "value_on ?s1 w (e_id emp) d \<noteq> None"
      using Cons.prems(3) ev by (rule evolves_row_exists[rotated])
    ultimately show ?thesis using Cons.IH by simp
  qed
qed

lemma sync_fold_keeps:
  "value_on s w' e' d' = Some TIME_OFF_LABEL \<Longrightarrow>
   value_on (fold (sync_emp w days) emps s) w' e' d' = Some TIME_OFF_LABEL"
  "value_on s w' e' d' = None \<Longrightarrow> value_on (fold (sync_emp w days) emps s) w' e' d' = None"
  by (rule fold_induct; simp add: sync_emp_keeps)+

lemma evolves_sync_fold [simp]: "evolves s (fold (sync_emp w days) emps s)"
  by (rule fold_induct) (auto intro: evolves_trans)

lemma sync_fold_post:
  assumes "emp \<in> set emps" and "d \<in> set days" and "has_approved_timeoff (e_name emp) d s"
    and "value_on s w (e_id emp) d \<noteq> None"
  shows "value_on (fold (sync_emp w days) emps s) w (e_id emp) d = Some TIME_OFF_LABEL"
  using assms
proof (induction emps arbitrary: s)
  case Nil
  then show ?case by simp
next
  case (Cons x emps)
  let ?s1 = "sync_emp w days x s"
  have ev: "evolves s ?s1" by simp
  show ?case
  proof (cases "x = emp")
    case True
    with Cons.prems have "value_on ?s1 w (e_id emp) d = Some TIME_OFF_LABEL"
      by (simp add: sync_emp_post)
    then show ?thesis by (simp add: sync_fold_keeps)
  next
    case False
    with Cons.prems have "emp \<in> set emps" by simp
    moreover have "has_approved_timeoff (e_name emp) d ?s1"
      using Cons.prems(3) by (simp add: evolves_has_approved[OF ev])
    moreover have "value_on ?s1 w (e_id emp) d \<noteq> None"
      using Cons.prems(4) ev by (rule evolves_row_exists[rotated])
    ultimately show ?thesis using Cons.IH Cons.prems(2) by simp
  qed
qed

lemma sync_Inr:
  assumes "get_week s w = Some wk"
  shows "sync_timeoff_to_assignments w s =
           Inr (fold (sync_emp w (daterange (w_start_date wk) 7)) (db_employees s) s)"
  using assms by (simp add: sync_timeoff_to_assignments_def)

lemma evolves_sync:
  "sync_timeoff_to_assignments w s = Inr s' \<Longrightarrow> evolves s s'"
  by (auto simp: sync_timeoff_to_assignments_def split: option.splits)

lemma sync_post:
  assumes "get_week s w = Some wk" and "sync_timeoff_to_assignments w s = Inr s'"
  shows "synced_from s w (daterange (w_start_date wk) 7) (db_employees s) s'"
  using assms by (auto simp: sync_Inr synced_from_def sync_fold_post)

lemma sync_idempotent:
  assumes "get_week s w = Some wk" and "sync_timeoff_to_assignments w s = Inr s1"
  shows "sync_timeoff_to_assignments w s1 = Inr s1"
proof -
  let ?days = "daterange (w_start_date wk) 7"
  have ev: "evolves s s1" using assms(2) by (rule evolves_sync)
  have s1: "s1 = fold (sync_emp w ?days) (db_employees s) s"
    using assms by (simp add: sync_Inr)
  have wk1: "get_week s1 w = Some wk" using ev assms(1) by (rule evolves_get_week)
  have emps: "db_employees s1 = db_employees s" using ev by (simp add: evolves_def)
  have day: "sync_day w emp d s1 = s1" if "emp \<in> set (db_employees s)" "d \<in> set ?days" for emp d
  proof (rule sync_day_id, intro impI)
    assume "has_approved_timeoff (e_name emp) d s1"
    then have ap: "has_approved_timeoff (e_name emp) d s"
      by (simp add: evolves_has_approved[OF ev])
    show "value_on s1 w (e_id emp) d = None \<or> value_on s1 w (e_id emp) d = Some TIME_OFF_LABEL"
    proof (cases "value_on s w (e_id emp) d")
      case None
      then show ?thesis unfolding s1 by (simp add: sync_fold_keeps)
    next
      case (Some v)
      with that ap show ?thesis unfolding s1 by (simp add: sync_fold_post)
    qed
  qed
  have "sync_emp w ?days emp s1 = s1" if "emp \<in> set (db_employees s)" for emp
    unfolding sync_emp_def by (rule fold_id) (simp add: day that)
  then have "fold (sync_emp w ?days) (db_employees s) s1 = s1"
    by (intro fold_id) simp
  with wk1 emps show ?thesis by (simp add: sync_Inr)
qed

section \<open>The generator only rewrites assignment rows\<close>

lemma evolves_fd_cand_step:
  "fd_cand_step ctx w d variant eid (cand, gs) = Inr (cand', gs') \<Longrightarrow>
   evolves (gs_db gs) (gs_db gs')"
  by (auto simp: fd_cand_step_def split: option.splits if_splits sum.splits)

lemma evolves_fd_cand_fold:
  assumes "fold_err (fd_cand_step ctx w d variant) pool (cand, gs) = Inr (cand', gs')"
  shows "evolves (gs_db gs) (gs_db gs')"
proof -
  have "evolves (gs_db gs) (gs_db (snd (cand', gs')))"
    by (rule fold_err_induct[OF assms, where P = "\<lambda>t. evolves (gs_db gs) (gs_db (snd t))"])
       (auto intro: evolves_trans[OF _ evolves_fd_cand_step])
  then show ?thesis by simp
qed

lemma evolves_fd_assign_pick:
  "evolves (gs_db (snd st)) (gs_db (snd (fd_assign_pick ctx w d variant opts picks ie st)))"
  by (cases ie; cases st) (simp add: fd_assign_pick_def split: option.splits)

lemma evolves_fd_place_picks:
  "evolves (gs_db (snd st)) (gs_db (snd (fd_place_picks ctx w d variant opts picks0 st)))"
  unfolding fd_place_picks_def Let_def
  by (rule fold_induct[where P = "\<lambda>t. evolves (gs_db (snd st)) (gs_db (snd t))"])
     (auto intro: evolves_trans evolves_fd_assign_pick)

lemma evolves_fd_variant_step:
  assumes "fd_variant_step ctx w d vo (pool, gs) = Inr (pool', gs')"
  shows "evolves (gs_db gs) (gs_db gs')"
proof -
  obtain variant opts where vo: "vo = (variant, opts)" by (cases vo)
  from assms vo obtain cand gs1 where
    c: "fold_err (fd_cand_step ctx w d variant) pool ([], gs) = Inr (cand, gs1)"
    by (auto simp: fd_variant_step_def split: sum.splits)
  have e1: "evolves (gs_db gs) (gs_db gs1)" using c by (rule evolves_fd_cand_fold)
  show ?thesis
  proof (cases "cand = []")
    case True
    with assms vo c e1 show ?thesis by (simp add: fd_variant_step_def)
  next
    case False
    with assms vo c obtain picks0 where
      "fd_place_picks ctx w d variant opts picks0 (pool, gs1) = (pool', gs')"
      by (auto simp: fd_variant_step_def split: sum.splits)
    with evolves_fd_place_picks[of "(pool, gs1)" ctx w d variant opts picks0]
    have "evolves (gs_db gs1) (gs_db gs')" by (metis snd_conv)
    with e1 show ?thesis by (rule evolves_trans)
  qed
qed

lemma evolves_fd_day:
  assumes "fd_day ctx w d gs = Inr gs'"
  shows "evolves (gs_db gs) (gs_db gs')"
proof -
  from assms obtain pool' where
    f: "fold_err (fd_variant_step ctx w d) FD_VARIANTS (fd_emp_ids ctx, gs) = Inr (pool', gs')"
    by (auto simp: fd_day_def split: sum.splits)
  have "evolves (gs_db gs) (gs_db (snd (pool', gs')))"
    by (rule fold_err_induct[OF f, where P = "\<lambda>t. evolves (gs_db gs) (gs_db (snd t))"])
       (auto intro: evolves_trans[OF _ evolves_fd_variant_step])
  then show ?thesis by simp
qed

lemma evolves_fd_pass:
  assumes "fd_pass ctx wk gs = Inr gs'"
  shows "evolves (gs_db gs) (gs_db gs')"
  by (rule fold_err_induct[OF assms[unfolded fd_pass_def],
        where P = "\<lambda>t. evolves (gs_db gs) (gs_db t)"])
     (auto intro: evolves_trans[OF _ evolves_fd_day])

lemma evolves_dept_cand_step:
  "evolves (snd st) (snd (dept_cand_step ctx w reserved role d shift eid st))"
  by (cases st) (simp add: dept_cand_step_def split: option.splits)

lemma evolves_dept_cand_fold:
  "evolves s (snd (fold (dept_cand_step ctx w reserved role d shift) pool (cand, s)))"
  by (rule fold_induct[where P = "\<lambda>t. evolves s (snd t)"])
     (auto intro: evolves_trans evolves_dept_cand_step)

lemma evolves_dept_shift_step:
  assumes "dept_shift_step ctx w reserved role d shift (pool, gs) = Inr (pool', gs')"
  shows "evolves (gs_db gs) (gs_db gs')"
proof -
  obtain candidates s1 where
    f: "fold (dept_cand_step ctx w reserved role d shift) pool ([], gs_db gs) = (candidates, s1)"
    by (cases "fold (dept_cand_step ctx w reserved role d shift) pool ([], gs_db gs)")
  from evolves_dept_cand_fold[of "gs_db gs" ctx w reserved role d shift pool "[]"] f
  have e1: "evolves (gs_db gs) s1" by simp
  from assms f have "gs_db gs' = s1 \<or> (\<exists>pick. gs_db gs' = set_value w pick d shift s1)"
    by (auto simp: dept_shift_step_def Let_def split: sum.splits option.splits)
  then have "evolves s1 (gs_db gs')" by auto
  with e1 show ?thesis by (rule evolves_trans)
qed

lemma evolves_dept_day:
  assumes "dept_day ctx w reserved role ids shifts d gs = Inr gs'"
  shows "evolves (gs_db gs) (gs_db gs')"
proof -
  from assms obtain pool' where
    f: "fold_err (dept_shift_step ctx w reserved role d) shifts (ids, gs) = Inr (pool', gs')"
    by (auto simp: dept_day_def split: sum.splits)
  have "evolves (gs_db gs) (gs_db (snd (pool', gs')))"
    by (rule fold_err_induct[OF f, where P = "\<lambda>t. evolves (gs_db gs) (gs_db (snd t))"])
       (auto intro: evolves_trans[OF _ evolves_dept_shift_step])
  then show ?thesis by simp
qed

lemma evolves_dept_pass:
  assumes "dept_pass ctx wk reserved role ids shifts gs = Inr gs'"
  shows "evolves (gs_db gs) (gs_db gs')"
  by (rule fold_err_induct[OF assms[unfolded dept_pass_def],
        where P = "\<lambda>t. evolves (gs_db gs) (gs_db t)"])
     (auto intro: evolves_trans[OF _ evolves_dept_day])

lemma evolves_ensure:
  "evolves s (fst (ensure_week_and_assignments s start_d))"
proof -
  have inner: "evolves t (fold (ensure_assignment w e) ds t)" for t w e ds
    by (rule fold_induct) (auto intro: evolves_trans)
  have outer: "evolves t (fold (\<lambda>emp. fold (ensure_assignment w (e_id emp)) ds) emps t)"
    for t w ds emps
    by (rule fold_induct) (auto intro: evolves_trans inner)
  have addw: "evolves s (s\<lparr>db_weeks := db_weeks s @ [wk]\<rparr>)" for wk
    by (simp add: evolves_def)
  show ?thesis
    by (auto simp: ensure_week_and_assignments_def Let_def split: option.splits
        intro: outer evolves_trans[OF addw outer])
qed

lemma evolves_gen_week:
  assumes "gen_week ctx start_d s = Inr s'"
  shows "evolves s s'"
proof -
  obtain s1 wk where en: "ensure_week_and_assignments s start_d = (s1, wk)"
    by (cases "ensure_week_and_assignments s start_d")
  let ?gs0 = "init_gen_state (reset_week (w_id wk) s1)"
  from assms en obtain gs1 gs2 gs3 where
    p1: "fd_pass ctx wk ?gs0 = Inr gs1" and
    p2: "bb_pass ctx wk (reserved_fd_by_date ctx (gs_db gs1) wk) gs1 = Inr gs2" and
    p3: "sh_pass ctx wk (reserved_fd_by_date ctx (gs_db gs1) wk) gs2 = Inr gs3" and
    p4: "sync_timeoff_to_assignments (w_id wk) (gs_db gs3) = Inr s'"
    by (auto simp: gen_week_def Let_def split: sum.splits)
  note [trans] = evolves_trans
  have "evolves s s1" using evolves_ensure[of s start_d] en by simp
  also have "evolves s1 (gs_db ?gs0)" by (simp add: init_gen_state_def)
  also have "evolves (gs_db ?gs0) (gs_db gs1)" using p1 by (rule evolves_fd_pass)
  also have "evolves (gs_db gs1) (gs_db gs2)"
    using p2 unfolding bb_pass_def by (rule evolves_dept_pass)
  also have "evolves (gs_db gs2) (gs_db gs3)"
    using p3 unfolding sh_pass_def by (rule evolves_dept_pass)
  also have "evolves (gs_db gs3) s'" using p4 by (rule evolves_sync)
  finally show ?thesis .
qed

lemma evolves_generate_weeks:
  assumes "generate_weeks ctx base_start s = Inr s'"
  shows "evolves s s'"
  by (rule fold_err_induct[OF assms[unfolded generate_weeks_def], where P = "evolves s"])
     (auto intro: evolves_trans[OF _ evolves_gen_week])

lemma evolves_generate:
  assumes "generate_4_week_schedule set_order start_week_id s = Inr s'"
  shows "evolves s s'"
  using assms
  by (auto simp: generate_4_week_schedule_def split: option.splits dest: evolves_generate_weeks)

lemma synced_from_mono:
  assumes "evolves s t" and "synced_from t w days (db_employees t) u"
  shows "synced_from s w days (db_employees s) u"
  unfolding synced_from_def
proof (intro ballI impI)
  fix emp d
  assume emp: "emp \<in> set (db_employees s)" and d: "d \<in> set days"
    and h: "has_approved_timeoff (e_name emp) d s \<and> value_on s w (e_id emp) d \<noteq> None"
  from assms(1) emp have "emp \<in> set (db_employees t)" by (simp add: evolves_def)
  moreover from h have "has_approved_timeoff (e_name emp) d t"
    by (simp add: evolves_has_approved[OF assms(1)])
  moreover from h have "value_on t w (e_id emp) d \<noteq> None"
    using evolves_row_exists[OF assms(1)] by blast
  ultimately show "value_on u w (e_id emp) d = Some TIME_OFF_LABEL"
    using assms(2) d by (auto simp: synced_from_def)
qed

section \<open>States that differ in dismissed flags only\<close>

lemma same_values_refl [simp]: "same_values s s"
  by (simp add: same_values_def)

lemma same_values_trans: "same_values s t \<Longrightarrow> same_values t u \<Longrightarrow> same_values s u"
  by (simp add: same_values_def)

lemma find_val_view:
  "map_option val_view (find (\<lambda>a. Q (val_view a)) xs) = find Q (map val_view xs)"
  by (induction xs) auto

lemma value_on_view:
  "value_on s w e d =
     map_option (\<lambda>(w', e', d', v). v)
       (find (\<lambda>(w', e', d', v). w' = w \<and> e' = e \<and> d' = d) (map val_view (db_assignments s)))"
proof -
  have "find (\<lambda>a. a_week_id a = w \<and> a_employee_id a = e \<and> a_date a = d) xs =
        find (\<lambda>a. (\<lambda>(w', e', d', v). w' = w \<and> e' = e \<and> d' = d) (val_view a)) xs" for xs
    by (simp add: val_view_def)
  then show ?thesis
    unfolding value_on_def get_assignment_def find_val_view[symmetric]
    by (simp add: option.map_comp comp_def val_view_def)
qed

lemma same_values_value_on: "same_values s s' \<Longrightarrow> value_on s' w e d = value_on s w e d"
  by (simp add: value_on_view same_values_def)

lemma prev_value_view:
  "prev_value s e d =
     map_option (\<lambda>(w', e', d', v). v)
       (find (\<lambda>(w', e', d', v). e' = e \<and> d' = d - 1) (map val_view (db_assignments s)))"
proof -
  have "find (\<lambda>a. a_employee_id a = e \<and> a_date a = d - 1) xs =
        find (\<lambda>a. (\<lambda>(w', e', d', v). e' = e \<and> d' = d - 1) (val_view a)) xs" for xs
    by (simp add: val_view_def)
  then show ?thesis
    unfolding prev_value_def find_val_view[symmetric]
    by (simp add: option.map_comp comp_def val_view_def)
qed

lemma rest_ok_prev_value:
  "rest_ok s eid dte role label =
     (case prev_value s eid dte of
        None \<Rightarrow> True
      | Some v \<Rightarrow>
          if v = [] \<or> is_placeholder v then True
          else if role = ''Front Desk'' \<and> startswith label ''AM'' \<and> startswith v ''PM'' then False
          else if role = ''Front Desk'' \<and> startswith label ''PM'' \<and> startswith v ''Audit''
               then False
          else if role = ''Shuttle'' \<and> startswith label ''AM''
                  \<and> (startswith v ''PM'' \<or> startswith v ''Crew'') then False
          else if role = ''Shuttle'' \<and> startswith label ''Midday'' \<and> startswith v ''Crew''
               then False
          else True)"
  by (simp add: rest_ok_def prev_value_def split: option.splits)

lemma same_values_rest_ok:
  "same_values s s' \<Longrightarrow> rest_ok s' eid dte role label = rest_ok s eid dte role label"
  by (simp add: rest_ok_prev_value prev_value_view same_values_def)

lemma same_values_has_any:
  "same_values s s' \<Longrightarrow> has_any_timeoff n d s' = has_any_timeoff n d s"
  by (simp add: has_any_timeoff_def same_values_def)

lemma fd_count_step_value_on:
  "fd_count_step s w day eid c =
     (let (am, pm, au) = c in
      case value_on s w eid day of
        None \<Rightarrow> c
      | Some v \<Rightarrow>
          if v = [] \<or> is_placeholder v then c
          else if startswith v ''AM'' then (am + 1, pm, au)
          else if startswith v ''PM'' then (am, pm + 1, au)
          else if startswith v ''Audit'' then (am, pm, au + 1)
          else c)"
  by (simp add: fd_count_step_def value_on_def split: option.splits prod.splits)

lemma same_values_fd_missing_on:
  assumes "same_values s s'"
  shows "fd_missing_on ctx s' w d = fd_missing_on ctx s w d"
proof -
  have "fd_count_step s' w d = fd_count_step s w d"
    by (intro ext) (simp add: fd_count_step_value_on same_values_value_on[OF assms])
  then show ?thesis by (simp add: fd_missing_on_def)
qed

lemma same_values_mark_dismissed [simp]: "same_values s (mark_dismissed w e d s)"
proof -
  have "map val_view (update_first P (\<lambda>a. a\<lparr>a_dismissed_timeoff := True\<rparr>) xs) = map val_view xs"
    for P xs
    by (induction xs) (simp_all add: val_view_def)
  then show ?thesis
    by (simp add: same_values_def mark_dismissed_def update_assignment_def)
qed

lemma dismissed_on_mark_dismissed:
  "dismissed_on (mark_dismissed w e d s) w' e' d' =
     (if w' = w \<and> e' = e \<and> d' = d then map_option (\<lambda>b. True) (dismissed_on s w e d)
      else dismissed_on s w' e' d')"
  by (simp add: dismissed_on_def mark_dismissed_def get_assignment_update option.map_comp comp_def)

section \<open>The dismissed flag in the candidate scans\<close>

lemma fd_cand_step_db:
  assumes "fd_cand_step ctx w d variant eid (cand, gs) = Inr (cand', gs')"
  shows "gs_db gs' =
           (if fd_dismiss_cond ctx (gs_db gs) w d variant eid
            then mark_dismissed w eid d (gs_db gs) else gs_db gs)"
  using assms
  by (auto simp: fd_cand_step_def fd_dismiss_cond_def value_on_def
      split: option.splits if_splits sum.splits)

lemma fd_dismiss_cond_same:
  "same_values s s' \<Longrightarrow> fd_dismiss_cond ctx s' w d variant eid = fd_dismiss_cond ctx s w d variant eid"
  by (simp add: fd_dismiss_cond_def same_values_value_on same_values_rest_ok same_values_has_any)

lemma fd_scan_dismissed:
  assumes "fold_err (fd_cand_step ctx w d variant) pool (cand, gs) = Inr (cand', gs')"
  shows "same_values (gs_db gs) (gs_db gs') \<and>
         (\<forall>w' e' d'. dismissed_on (gs_db gs') w' e' d' =
            map_option (\<lambda>b. b \<or> (w' = w \<and> d' = d \<and> e' \<in> set pool \<and>
                                  fd_dismiss_cond ctx (gs_db gs) w d variant e'))
              (dismissed_on (gs_db gs) w' e' d'))"
  using assms
proof (induction pool arbitrary: cand gs)
  case Nil
  then show ?case by (simp add: option.map_ident)
next
  case (Cons x pool)
  from Cons.prems obtain c1 g1 where
    st: "fd_cand_step ctx w d variant x (cand, gs) = Inr (c1, g1)" and
    rest: "fold_err (fd_cand_step ctx w d variant) pool (c1, g1) = Inr (cand', gs')"
    by (auto split: sum.splits)
  note db1 = fd_cand_step_db[OF st]
  have sv1: "same_values (gs_db gs) (gs_db g1)" by (simp add: db1)
  from Cons.IH[OF rest] have sv2: "same_values (gs_db g1) (gs_db gs')"
    and ih: "\<And>w' e' d'. dismissed_on (gs_db gs') w' e' d' =
            map_option (\<lambda>b. b \<or> (w' = w \<and> d' = d \<and> e' \<in> set pool \<and>
                                  fd_dismiss_cond ctx (gs_db g1) w d variant e'))
              (dismissed_on (gs_db g1) w' e' d')"
    by blast+
  have "dismissed_on (gs_db gs') w' e' d' =
            map_option (\<lambda>b. b \<or> (w' = w \<and> d' = d \<and> e' \<in> set (x # pool) \<and>
                                  fd_dismiss_cond ctx (gs_db gs) w d variant e'))
              (dismissed_on (gs_db gs) w' e' d')" for w' e' d'
    unfolding ih fd_dismiss_cond_same[OF sv1]
    by (cases "dismissed_on (gs_db gs) w' e' d'")
       (auto simp: db1 dismissed_on_mark_dismissed)
  with same_values_trans[OF sv1 sv2] show ?case by blast
qed

lemma dept_cand_step_db:
  "snd (dept_cand_step ctx w reserved ''Breakfast Bar'' d shift eid (cand, s)) =
           (if bb_dismiss_cond ctx reserved s w d shift eid
            then mark_dismissed w eid d s else s)"
  by (auto simp: dept_cand_step_def bb_dismiss_cond_def would_pass_def value_on_def
      split: option.splits)

lemma bb_dismiss_cond_same:
  "same_values s s' \<Longrightarrow>
   bb_dismiss_cond ctx reserved s' w d shift eid = bb_dismiss_cond ctx reserved s w d shift eid"
  by (simp add: bb_dismiss_cond_def same_values_value_on same_values_rest_ok same_values_has_any
      same_values_fd_missing_on)

lemma bb_scan_dismissed:
  assumes "fold (dept_cand_step ctx w reserved ''Breakfast Bar'' d shift) pool (cand, s) = (cand', s')"
  shows "same_values s s' \<and>
         (\<forall>w' e' d'. dismissed_on s' w' e' d' =
            map_option (\<lambda>b. b \<or> (w' = w \<and> d' = d \<and> e' \<in> set pool \<and>
                                  bb_dismiss_cond ctx reserved s w d shift e'))
              (dismissed_on s w' e' d'))"
  using assms
proof (induction pool arbitrary: cand s)
  case Nil
  then show ?case by (simp add: option.map_ident)
next
  case (Cons x pool)
  obtain c1 s1 where st: "dept_cand_step ctx w reserved ''Breakfast Bar'' d shift x (cand, s) = (c1, s1)"
    by (cases "dept_cand_step ctx w reserved ''Breakfast Bar'' d shift x (cand, s)")
  with Cons.prems have
    rest: "fold (dept_cand_step ctx w reserved ''Breakfast Bar'' d shift) pool (c1, s1) = (cand', s')"
    by simp
  from dept_cand_step_db[of ctx w reserved d shift x cand s] st
  have db1: "s1 = (if bb_dismiss_cond ctx reserved s w d shift x
            then mark_dismissed w x d s else s)" by simp
  have sv1: "same_values s s1" by (simp add: db1)
  from Cons.IH[OF rest] have sv2: "same_values s1 s'"
    and ih: "\<And>w' e' d'. dismissed_on s' w' e' d' =
            map_option (\<lambda>b. b \<or> (w' = w \<and> d' = d \<and> e' \<in> set pool \<and>
                                  bb_dismiss_cond ctx reserved s1 w d shift e'))
              (dismissed_on s1 w' e' d')"
    by blast+
  have "dismissed_on s' w' e' d' =
            map_option (\<lambda>b. b \<or> (w' = w \<and> d' = d \<and> e' \<in> set (x # pool) \<and>
                                  bb_dismiss_cond ctx reserved s w d shift e'))
              (dismissed_on s w' e' d')" for w' e' d'
    unfolding ih bb_dismiss_cond_same[OF sv1]
    by (cases "dismissed_on s w' e' d'")
       (auto simp: db1 dismissed_on_mark_dismissed)
  with same_values_trans[OF sv1 sv2] show ?case by blast
qed

section \<open>Reservation\<close>

lemma reserve_fold_other:
  "d \<notin> set ds \<Longrightarrow> fold (reserve_step ctx s w) ds m d = m d"
  by (induction ds arbitrary: m) (auto simp: reserve_step_def Let_def)

lemma reserve_fold_hit:
  assumes "d \<in> set ds" and "fd_missing_on ctx s w d" and "reserve_on ctx s w d \<noteq> []"
  shows "fold (reserve_step ctx s w) ds m d = Some (reserve_on ctx s w d)"
  using assms(1)
proof (induction ds arbitrary: m)
  case Nil
  then show ?case by simp
next
  case (Cons x ds)
  show ?case
  proof (cases "d \<in> set ds")
    case True
    then show ?thesis using Cons.IH by simp
  next
    case False
    with Cons.prems have "x = d" by simp
    have "reserve_step ctx s w d m d = Some (reserve_on ctx s w d)"
      using assms(2,3) by (simp add: reserve_step_def Let_def)
    with False \<open>x = d\<close> show ?thesis
      by (simp add: reserve_fold_other)
  qed
qed

lemma reserved_hit:
  assumes "d \<in> set (daterange (w_start_date wk) 7)"
    and "fd_missing_on ctx s (w_id wk) d"
    and "eid \<in> set (fd_emp_ids ctx)"
    and "value_on s (w_id wk) eid d = Some ''Set''"
  shows "is_reserved (reserved_fd_by_date ctx s wk) d eid"
proof -
  from assms(3,4) have "eid \<in> set (reserve_on ctx s (w_id wk) d)"
    by (auto simp: reserve_on_def value_on_def)
  moreover then have "reserve_on ctx s (w_id wk) d \<noteq> []" by auto
  ultimately show ?thesis
    using reserve_fold_hit[OF assms(1,2)]
    by (simp add: is_reserved_def reserved_fd_by_date_def)
qed

section \<open>Who can be picked\<close>

lemma pick_filter_subset:
  "pick_filter ctx gs cur role label cands = Inr filtered \<Longrightarrow> set filtered \<subseteq> set cands"
  by (induction cands arbitrary: filtered) (auto split: sum.splits if_splits)

lemma rank_candidates_set:
  "rank_candidates ctx gs role label filtered = Inr ranked \<Longrightarrow> set ranked = set filtered"
proof -
  assume "rank_candidates ctx gs role label filtered = Inr ranked"
  then obtain kxs where k: "keyed (key_fn ctx gs role label) filtered = Inr kxs"
    and r: "ranked = map snd (sort_key fst kxs)"
    by (auto simp: rank_candidates_def split: sum.splits)
  from keyed_Inr[OF k] have "map snd kxs = filtered" by simp
  then have "snd ` set kxs = set filtered" by (metis set_map)
  with r show ?thesis by simp
qed

lemma pick_best_mem:
  assumes "pick_best ctx gs cur cands role label = Inr (Some pick)"
  shows "pick \<in> set cands"
proof -
  from assms obtain filtered ranked where
    f: "pick_filter ctx gs cur role label cands = Inr filtered" and ne: "filtered \<noteq> []" and
    r: "rank_candidates ctx gs role label filtered = Inr ranked" and p: "pick = hd ranked"
    by (auto simp: pick_best_def split: sum.splits if_splits)
  from rank_candidates_set[OF r] ne have "ranked \<noteq> []" by auto
  with p have "pick \<in> set ranked" by simp
  with rank_candidates_set[OF r] pick_filter_subset[OF f] show ?thesis by auto
qed

lemma dept_cand_step_same_values:
  "same_values (snd st) (snd (dept_cand_step ctx w reserved role d shift eid st))"
  by (cases st) (simp add: dept_cand_step_def split: option.splits)

lemma dept_cand_fold_same_values:
  "same_values s (snd (fold (dept_cand_step ctx w reserved role d shift) pool (cand, s)))"
  by (rule fold_induct[where P = "\<lambda>t. same_values s (snd t)"])
     (auto intro: same_values_trans dept_cand_step_same_values)

lemma dept_cand_step_reserved:
  "is_reserved reserved d eid \<Longrightarrow> eid \<notin> set (fst st) \<Longrightarrow>
   eid \<notin> set (fst (dept_cand_step ctx w reserved role d shift x st))"
  by (cases st) (auto simp: dept_cand_step_def split: option.splits)

lemma dept_cand_fold_reserved:
  assumes "is_reserved reserved d eid" and "eid \<notin> set cand"
  shows "eid \<notin> set (fst (fold (dept_cand_step ctx w reserved role d shift) pool (cand, s)))"
  by (rule fold_induct[where P = "\<lambda>t. eid \<notin> set (fst t)"])
     (use assms dept_cand_step_reserved[OF assms(1)] in auto)

lemma dept_shift_step_reserved:
  assumes "dept_shift_step ctx w reserved role d' shift (pool, gs) = Inr (pool', gs')"
    and "is_reserved reserved d eid"
  shows "value_on (gs_db gs') w eid d = value_on (gs_db gs) w eid d"
proof -
  obtain candidates s1 where
    f: "fold (dept_cand_step ctx w reserved role d' shift) pool ([], gs_db gs) = (candidates, s1)"
    by (cases "fold (dept_cand_step ctx w reserved role d' shift) pool ([], gs_db gs)")
  from dept_cand_fold_same_values[of "gs_db gs" ctx w reserved role d' shift pool "[]"] f
  have sv: "same_values (gs_db gs) s1" by simp
  have v1: "value_on s1 w eid d = value_on (gs_db gs) w eid d"
    using sv by (rule same_values_value_on)
  from assms(1) f consider
    (none) "gs_db gs' = s1"
    | (some) pick where "pick_best ctx (gs\<lparr>gs_db := s1\<rparr>) d' candidates role shift = Inr (Some pick)"
      "gs_db gs' = set_value w pick d' shift s1"
    by (auto simp: dept_shift_step_def Let_def split: sum.splits option.splits)
  then show ?thesis
  proof cases
    case none
    with v1 show ?thesis by simp
  next
    case some
    from pick_best_mem[OF some(1)] have pc: "pick \<in> set candidates" .
    have "\<not> (pick = eid \<and> d' = d)"
    proof
      assume "pick = eid \<and> d' = d"
      with pc f dept_cand_fold_reserved[OF assms(2), of "[]" ctx w role shift pool "gs_db gs"]
      show False by simp
    qed
    with some(2) v1 show ?thesis by (auto simp: value_on_set_value)
  qed
qed

lemma dept_day_reserved:
  assumes "dept_day ctx w reserved role ids shifts d' gs = Inr gs'"
    and "is_reserved reserved d eid"
  shows "value_on (gs_db gs') w eid d = value_on (gs_db gs) w eid d"
proof -
  from assms(1) obtain pool' where
    f: "fold_err (dept_shift_step ctx w reserved role d') shifts (ids, gs) = Inr (pool', gs')"
    by (auto simp: dept_day_def split: sum.splits)
  have "value_on (gs_db (snd (pool', gs'))) w eid d = value_on (gs_db gs) w eid d"
    by (rule fold_err_induct[OF f,
          where P = "\<lambda>t. value_on (gs_db (snd t)) w eid d = value_on (gs_db gs) w eid d"])
       (auto simp: dept_shift_step_reserved[OF _ assms(2)])
  then show ?thesis by simp
qed

lemma dept_pass_reserved:
  assumes "dept_pass ctx wk reserved role ids shifts gs = Inr gs'"
    and "is_reserved reserved d eid"
  shows "value_on (gs_db gs') (w_id wk) eid d = value_on (gs_db gs) (w_id wk) eid d"
  by (rule fold_err_induct[OF assms(1)[unfolded dept_pass_def],
        where P = "\<lambda>t. value_on (gs_db t) (w_id wk) eid d = value_on (gs_db gs) (w_id wk) eid d"])
     (auto simp: dept_day_reserved[OF _ assms(2)])

section \<open>The passes as sequences of guarded writes\<close>

lemma day_reach_trans:
  "day_reach ctx w role d gs1 gs2 \<Longrightarrow> day_reach ctx w role d gs gs1 \<Longrightarrow>
   day_reach ctx w role d gs gs2"
  by (induction rule: day_reach.induct) (auto intro: day_reach.intros)

lemma prev_value_update_other:
  assumes "key_preserving f" and "q \<noteq> p"
  shows "prev_value (update_assignment w p d f s) q d' = prev_value s q d'"
proof -
  have "find (\<lambda>a. a_employee_id a = q \<and> a_date a = d' - 1)
          (update_first (\<lambda>a. a_week_id a = w \<and> a_employee_id a = p \<and> a_date a = d) f
             (db_assignments s)) =
        find (\<lambda>a. a_employee_id a = q \<and> a_date a = d' - 1) (db_assignments s)"
    by (rule find_update_first_other) (use assms in \<open>auto simp: key_preserving_def\<close>)
  then show ?thesis by (simp add: prev_value_def update_assignment_def)
qed

lemma rest_ok_set_value_other:
  "q \<noteq> p \<Longrightarrow> rest_ok (set_value w p d v s) q d' role label = rest_ok s q d' role label"
  by (simp add: rest_ok_prev_value set_value_def prev_value_update_other)

lemma pick_filter_props:
  "pick_filter ctx gs cur role label cands = Inr filtered \<Longrightarrow> p \<in> set filtered \<Longrightarrow>
   p \<in> set cands \<and> cap_check ctx gs p role \<and> rest_ok (gs_db gs) p cur role label"
proof (induction cands arbitrary: filtered)
  case Nil
  then show ?case by simp
next
  case (Cons x cands)
  from Cons.prems(1) obtain maxw where mx: "effective_max_for_role ctx x role = Inr maxw"
    by (auto split: sum.splits)
  show ?case
  proof (cases "(case maxw of None \<Rightarrow> False | Some m \<Rightarrow> assigned_counts gs x \<ge> m) \<or>
                \<not> rest_ok (gs_db gs) x cur role label")
    case True
    with Cons.prems mx have "pick_filter ctx gs cur role label cands = Inr filtered"
      by (auto split: if_splits)
    from Cons.IH[OF this Cons.prems(2)] show ?thesis by simp
  next
    case False
    with Cons.prems(1) mx obtain f' where
      f': "pick_filter ctx gs cur role label cands = Inr f'" and fl: "filtered = x # f'"
      by (auto split: sum.splits if_splits)
    show ?thesis
    proof (cases "p = x")
      case True
      with False mx show ?thesis
        by (auto simp: cap_check_def split: option.splits)
    next
      case False
      with Cons.prems(2) fl have "p \<in> set f'" by simp
      from Cons.IH[OF f' this] show ?thesis by simp
    qed
  qed
qed

lemma pick_best_props:
  assumes "pick_best ctx gs cur cands role label = Inr (Some p)"
  shows "p \<in> set cands \<and> cap_check ctx gs p role \<and> rest_ok (gs_db gs) p cur role label"
proof -
  from assms obtain filtered ranked where
    f: "pick_filter ctx gs cur role label cands = Inr filtered" and ne: "filtered \<noteq> []" and
    r: "rank_candidates ctx gs role label filtered = Inr ranked" and p: "p = hd ranked"
    by (auto simp: pick_best_def split: sum.splits if_splits)
  from rank_candidates_set[OF r] ne have "ranked \<noteq> []" by auto
  with p have "p \<in> set ranked" by simp
  with rank_candidates_set[OF r] have "p \<in> set filtered" by simp
  from pick_filter_props[OF f this] show ?thesis .
qed

subsection \<open>Front Desk\<close>

lemma fd_cand_step_shape:
  assumes "fd_cand_step ctx w d variant eid (cand, gs) = Inr (cand', gs')"
  shows "(gs' = gs \<or> gs' = gs\<lparr>gs_db := mark_dismissed w eid d (gs_db gs)\<rparr>) \<and>
         (cand' = cand \<or> cand' = cand @ [eid] \<and> value_on (gs_db gs) w eid d = Some ''Set'')"
  using assms
  by (auto simp: fd_cand_step_def value_on_def split: option.splits if_splits sum.splits)

lemma fd_scan_reach:
  assumes "fold_err (fd_cand_step ctx w d variant) pool (cand, gs) = Inr (cand', gs')"
  shows "day_reach ctx w role d gs gs' \<and> same_values (gs_db gs) (gs_db gs') \<and>
         (\<forall>p \<in> set cand'. p \<in> set cand \<or>
             p \<in> set pool \<and> value_on (gs_db gs) w p d = Some ''Set'')"
  using assms
proof (induction pool arbitrary: cand gs)
  case Nil
  then show ?case by (auto intro: day_reach.start)
next
  case (Cons x pool)
  from Cons.prems obtain c1 g1 where
    st: "fd_cand_step ctx w d variant x (cand, gs) = Inr (c1, g1)" and
    rest: "fold_err (fd_cand_step ctx w d variant) pool (c1, g1) = Inr (cand', gs')"
    by (auto split: sum.splits)
  note sh = fd_cand_step_shape[OF st]
  from sh have r1: "day_reach ctx w role d gs g1"
    by (auto intro: day_reach.intros)
  from sh have sv1: "same_values (gs_db gs) (gs_db g1)" by auto
  from Cons.IH[OF rest] have r2: "day_reach ctx w role d g1 gs'"
    and sv2: "same_values (gs_db g1) (gs_db gs')"
    and c2: "\<forall>p \<in> set cand'. p \<in> set c1 \<or>
             p \<in> set pool \<and> value_on (gs_db g1) w p d = Some ''Set''"
    by blast+
  have "\<forall>p \<in> set cand'. p \<in> set cand \<or>
             p \<in> set (x # pool) \<and> value_on (gs_db gs) w p d = Some ''Set''"
    using c2 sh same_values_value_on[OF sv1] by auto
  with day_reach_trans[OF r2 r1] same_values_trans[OF sv1 sv2] show ?case by blast
qed

lemma fd_picks_props:
  assumes "fd_picks ctx gs d variant cand n picks = Inr picks'"
    and "distinct picks"
    and "\<forall>p \<in> set picks. p \<in> set cand \<and> cap_check ctx gs p ''Front Desk'' \<and>
                          rest_ok (gs_db gs) p d ''Front Desk'' variant"
  shows "distinct picks' \<and>
         (\<forall>p \<in> set picks'. p \<in> set cand \<and> cap_check ctx gs p ''Front Desk'' \<and>
                          rest_ok (gs_db gs) p d ''Front Desk'' variant)"
  using assms
proof (induction n arbitrary: picks)
  case 0
  then show ?case by simp
next
  case (Suc n)
  let ?c = "filter (\<lambda>e. e \<notin> set picks) cand"
  from Suc.prems(1) obtain r where
    pb: "pick_best ctx gs d ?c ''Front Desk'' variant = Inr r"
    by (auto split: sum.splits)
  show ?case
  proof (cases r)
    case None
    with Suc.prems pb show ?thesis by simp
  next
    case (Some p)
    with Suc.prems(1) pb have rec: "fd_picks ctx gs d variant cand n (picks @ [p]) = Inr picks'"
      by simp
    from pick_best_props[OF pb[unfolded Some]]
    have pp: "p \<in> set ?c" "cap_check ctx gs p ''Front Desk''"
      "rest_ok (gs_db gs) p d ''Front Desk'' variant" by auto
    from pp(1) Suc.prems(2) have d: "distinct (picks @ [p])" by simp
    from pp Suc.prems(3) have
      "\<forall>q \<in> set (picks @ [p]). q \<in> set cand \<and> cap_check ctx gs q ''Front Desk'' \<and>
                          rest_ok (gs_db gs) q d ''Front Desk'' variant" by auto
    from Suc.IH[OF rec d this] show ?thesis .
  qed
qed

lemma stagger_label_in_opts: "opts \<noteq> [] \<Longrightarrow> stagger_label ctx opts picks i eid \<in> set opts"
  by (auto simp: stagger_label_def)

lemma cap_check_other:
  "assigned_counts gs' q = assigned_counts gs q \<Longrightarrow> cap_check ctx gs' q role = cap_check ctx gs q role"
  by (simp add: cap_check_def)

lemma fd_assign_fold_reach:
  assumes "distinct ps" and "(variant, opts) \<in> set FD_VARIANTS"
    and "\<forall>p \<in> set ps. value_on (gs_db gs) w p d = Some ''Set'' \<and>
            cap_check ctx gs p ''Front Desk'' \<and>
            rest_ok (gs_db gs) p d ''Front Desk'' variant \<and> p \<in> set (fd_emp_ids ctx)"
  shows "day_reach ctx w ''Front Desk'' d gs
           (snd (fold (fd_assign_pick ctx w d variant opts picks) (enumerate n ps) (pool, gs))) \<and>
         set (fst (fold (fd_assign_pick ctx w d variant opts picks) (enumerate n ps) (pool, gs)))
           \<subseteq> set pool"
  using assms(1,3)
proof (induction ps arbitrary: n pool gs)
  case Nil
  then show ?case by (simp add: day_reach.start)
next
  case (Cons p ps)
  let ?v = "stagger_label ctx opts picks n p"
  let ?gs1 = "gs\<lparr>gs_db := set_value w p d ?v (gs_db gs),
                 assigned_counts := (assigned_counts gs)(p := assigned_counts gs p + 1),
                 last_token_per_role :=
                   (last_token_per_role gs)((p, ''Front Desk'') :=
                      Some (pref_token ''Front Desk'' variant))\<rparr>"
  from Cons.prems(2) have pv: "value_on (gs_db gs) w p d = Some ''Set''"
    and pc: "cap_check ctx gs p ''Front Desk''"
    and pr: "rest_ok (gs_db gs) p d ''Front Desk'' variant"
    and pf: "p \<in> set (fd_emp_ids ctx)" by auto
  from pv obtain a where a: "get_assignment (gs_db gs) w p d = Some a"
    by (auto simp: value_on_def)
  have step: "fd_assign_pick ctx w d variant opts picks (n, p) (pool, gs) = (remove1 p pool, ?gs1)"
    using a by (simp add: fd_assign_pick_def)
  from assms(2) have "opts \<noteq> []" by (auto simp: FD_VARIANTS_def)
  then have lo: "label_ok ''Front Desk'' variant ?v"
    using assms(2) stagger_label_in_opts[of opts ctx picks n p]
    by (auto simp: label_ok_def)
  have r1: "day_reach ctx w ''Front Desk'' d gs ?gs1"
    by (rule day_reach.assign[OF day_reach.start pv pr lo pc])
       (simp add: role_ids_def pf)
  have rest: "\<forall>q \<in> set ps. value_on (gs_db ?gs1) w q d = Some ''Set'' \<and>
            cap_check ctx ?gs1 q ''Front Desk'' \<and>
            rest_ok (gs_db ?gs1) q d ''Front Desk'' variant \<and> q \<in> set (fd_emp_ids ctx)"
  proof
    fix q assume q: "q \<in> set ps"
    with Cons.prems(1) have ne: "q \<noteq> p" by auto
    from q Cons.prems(2) have "value_on (gs_db gs) w q d = Some ''Set''"
      "cap_check ctx gs q ''Front Desk''" "rest_ok (gs_db gs) q d ''Front Desk'' variant"
      "q \<in> set (fd_emp_ids ctx)" by auto
    with ne show "value_on (gs_db ?gs1) w q d = Some ''Set'' \<and>
            cap_check ctx ?gs1 q ''Front Desk'' \<and>
            rest_ok (gs_db ?gs1) q d ''Front Desk'' variant \<and> q \<in> set (fd_emp_ids ctx)"
      by (simp add: value_on_set_value rest_ok_set_value_other cap_check_def)
  qed
  from Cons.prems(1) have "distinct ps" by simp
  from Cons.IH[OF this rest, of "Suc n" "remove1 p pool"]
  have r2: "day_reach ctx w ''Front Desk'' d ?gs1
           (snd (fold (fd_assign_pick ctx w d variant opts picks) (enumerate (Suc n) ps)
                  (remove1 p pool, ?gs1)))"
    and s2: "set (fst (fold (fd_assign_pick ctx w d variant opts picks) (enumerate (Suc n) ps)
                  (remove1 p pool, ?gs1))) \<subseteq> set (remove1 p pool)"
    by blast+
  from day_reach_trans[OF r2 r1] s2 set_remove1_subset[of p pool] show ?case
    by (auto simp: step)
qed

lemma fd_variant_step_reach:
  assumes "fd_variant_step ctx w d vo (pool, gs) = Inr (pool', gs')"
    and "vo \<in> set FD_VARIANTS" and "set pool \<subseteq> set (fd_emp_ids ctx)"
  shows "day_reach ctx w ''Front Desk'' d gs gs' \<and> set pool' \<subseteq> set pool"
proof -
  obtain variant opts where vo: "vo = (variant, opts)" by (cases vo)
  from assms(1) vo obtain cand gs1 where
    c: "fold_err (fd_cand_step ctx w d variant) pool ([], gs) = Inr (cand, gs1)"
    by (auto simp: fd_variant_step_def split: sum.splits)
  from fd_scan_reach[OF c, of "''Front Desk''"]
  have r1: "day_reach ctx w ''Front Desk'' d gs gs1"
    and sv: "same_values (gs_db gs) (gs_db gs1)"
    and cs: "\<forall>p \<in> set cand. p \<in> set pool \<and> value_on (gs_db gs) w p d = Some ''Set''"
    by auto
  show ?thesis
  proof (cases "cand = []")
    case True
    with assms(1) vo c r1 show ?thesis by (simp add: fd_variant_step_def)
  next
    case False
    with assms(1) vo c obtain picks0 where
      pk: "fd_picks ctx gs1 d variant cand 2 [] = Inr picks0" and
      pl: "fd_place_picks ctx w d variant opts picks0 (pool, gs1) = (pool', gs')"
      by (auto simp: fd_variant_step_def split: sum.splits)
    from fd_picks_props[OF pk] have dp: "distinct picks0"
      and pp: "\<forall>p \<in> set picks0. p \<in> set cand \<and> cap_check ctx gs1 p ''Front Desk'' \<and>
                          rest_ok (gs_db gs1) p d ''Front Desk'' variant"
      by auto
    let ?ps = "sort_key (seniority_rank ctx) picks0"
    have good: "\<forall>p \<in> set ?ps. value_on (gs_db gs1) w p d = Some ''Set'' \<and>
            cap_check ctx gs1 p ''Front Desk'' \<and>
            rest_ok (gs_db gs1) p d ''Front Desk'' variant \<and> p \<in> set (fd_emp_ids ctx)"
      using pp cs assms(3) same_values_value_on[OF sv] by auto
    have dps: "distinct ?ps" using dp by simp
    from pl have pl': "fold (fd_assign_pick ctx w d variant opts ?ps) (enumerate 0 ?ps) (pool, gs1)
        = (pool', gs')"
      by (simp add: fd_place_picks_def Let_def)
    from fd_assign_fold_reach[where picks = ?ps and n = 0 and pool = pool,
        OF dps assms(2)[unfolded vo] good]
    have "day_reach ctx w ''Front Desk'' d gs1 gs'" "set pool' \<subseteq> set pool"
      unfolding pl' by simp_all
    with day_reach_trans[OF _ r1] show ?thesis by blast
  qed
qed

lemma fd_day_reach:
  assumes "fd_day ctx w d gs = Inr gs'"
  shows "day_reach ctx w ''Front Desk'' d gs gs'"
proof -
  from assms obtain pool' where
    f: "fold_err (fd_variant_step ctx w d) FD_VARIANTS (fd_emp_ids ctx, gs) = Inr (pool', gs')"
    by (auto simp: fd_day_def split: sum.splits)
  have "day_reach ctx w ''Front Desk'' d gs (snd (pool', gs')) \<and>
        set (fst (pool', gs')) \<subseteq> set (fd_emp_ids ctx)"
  proof (rule fold_err_induct[OF f,
        where P = "\<lambda>t. day_reach ctx w ''Front Desk'' d gs (snd t) \<and>
                        set (fst t) \<subseteq> set (fd_emp_ids ctx)"])
    show "day_reach ctx w ''Front Desk'' d gs (snd (fd_emp_ids ctx, gs)) \<and>
          set (fst (fd_emp_ids ctx, gs)) \<subseteq> set (fd_emp_ids ctx)"
      by (simp add: day_reach.start)
  next
    fix x t t'
    assume x: "x \<in> set FD_VARIANTS"
      and t: "day_reach ctx w ''Front Desk'' d gs (snd t) \<and> set (fst t) \<subseteq> set (fd_emp_ids ctx)"
      and s: "fd_variant_step ctx w d x t = Inr t'"
    obtain pool1 g1 where t1: "t = (pool1, g1)" by (cases t)
    obtain pool2 g2 where t2: "t' = (pool2, g2)" by (cases t')
    from fd_variant_step_reach[OF s[unfolded t1 t2] x] t t1
    have "day_reach ctx w ''Front Desk'' d g1 g2" "set pool2 \<subseteq> set pool1" by auto
    with t t1 t2 day_reach_trans show
      "day_reach ctx w ''Front Desk'' d gs (snd t') \<and> set (fst t') \<subseteq> set (fd_emp_ids ctx)"
      by auto
  qed
  then show ?thesis by simp
qed

subsection \<open>Breakfast Bar and Shuttle\<close>

lemma dept_cand_step_shape:
  "(snd (dept_cand_step ctx w reserved role d shift eid (cand, s)) = s \<or>
    snd (dept_cand_step ctx w reserved role d shift eid (cand, s)) = mark_dismissed w eid d s) \<and>
   (fst (dept_cand_step ctx w reserved role d shift eid (cand, s)) = cand \<or>
    fst (dept_cand_step ctx w reserved role d shift eid (cand, s)) = cand @ [eid] \<and>
    value_on s w eid d = Some ''Set'')"
  by (auto simp: dept_cand_step_def value_on_def split: option.splits)

lemma dept_scan_reach:
  assumes "fold (dept_cand_step ctx w reserved role d shift) pool (cand, gs_db gs) = (cand', s')"
  shows "day_reach ctx w role d gs (gs\<lparr>gs_db := s'\<rparr>) \<and> same_values (gs_db gs) s' \<and>
         (\<forall>p \<in> set cand'. p \<in> set cand \<or>
             p \<in> set pool \<and> value_on (gs_db gs) w p d = Some ''Set'')"
  using assms
proof (induction pool arbitrary: cand gs)
  case Nil
  then show ?case by (auto intro: day_reach.start)
next
  case (Cons x pool)
  obtain c1 s1 where st: "dept_cand_step ctx w reserved role d shift x (cand, gs_db gs) = (c1, s1)"
    by (cases "dept_cand_step ctx w reserved role d shift x (cand, gs_db gs)")
  with Cons.prems have
    rest: "fold (dept_cand_step ctx w reserved role d shift) pool (c1, gs_db (gs\<lparr>gs_db := s1\<rparr>))
             = (cand', s')" by simp
  from dept_cand_step_shape[of ctx w reserved role d shift x cand "gs_db gs"] st
  have sh: "s1 = gs_db gs \<or> s1 = mark_dismissed w x d (gs_db gs)"
    "c1 = cand \<or> c1 = cand @ [x] \<and> value_on (gs_db gs) w x d = Some ''Set''" by auto
  from sh(1) have r1: "day_reach ctx w role d gs (gs\<lparr>gs_db := s1\<rparr>)"
    using day_reach.mark[OF day_reach.start, of ctx w role d gs x]
    by (auto intro: day_reach.start)
  from sh(1) have sv1: "same_values (gs_db gs) s1" by auto
  from Cons.IH[OF rest] have r2: "day_reach ctx w role d (gs\<lparr>gs_db := s1\<rparr>) (gs\<lparr>gs_db := s'\<rparr>)"
    and sv2: "same_values s1 s'"
    and c2: "\<forall>p \<in> set cand'. p \<in> set c1 \<or> p \<in> set pool \<and> value_on s1 w p d = Some ''Set''"
    by auto
  have "\<forall>p \<in> set cand'. p \<in> set cand \<or>
             p \<in> set (x # pool) \<and> value_on (gs_db gs) w p d = Some ''Set''"
    using c2 sh(2) same_values_value_on[OF sv1] by auto
  with day_reach_trans[OF r2 r1] same_values_trans[OF sv1 sv2] show ?case by blast
qed

lemma dept_shift_step_reach:
  assumes "dept_shift_step ctx w reserved role d shift (pool, gs) = Inr (pool', gs')"
    and "label_ok role shift shift" and "set pool \<subseteq> set (role_ids ctx role)"
  shows "day_reach ctx w role d gs gs' \<and> set pool' \<subseteq> set pool"
proof -
  obtain candidates s1 where
    f: "fold (dept_cand_step ctx w reserved role d shift) pool ([], gs_db gs) = (candidates, s1)"
    by (cases "fold (dept_cand_step ctx w reserved role d shift) pool ([], gs_db gs)")
  let ?gs1 = "gs\<lparr>gs_db := s1\<rparr>"
  from dept_scan_reach[OF f] have r1: "day_reach ctx w role d gs ?gs1"
    and sv: "same_values (gs_db gs) s1"
    and cs: "\<forall>p \<in> set candidates. p \<in> set pool \<and> value_on (gs_db gs) w p d = Some ''Set''"
    by auto
  from assms(1) f obtain r where pb: "pick_best ctx ?gs1 d candidates role shift = Inr r"
    by (auto simp: dept_shift_step_def Let_def split: sum.splits)
  show ?thesis
  proof (cases r)
    case None
    with assms(1) f pb r1 show ?thesis by (auto simp: dept_shift_step_def Let_def)
  next
    case (Some pick)
    from pick_best_props[OF pb[unfolded Some]]
    have pc: "pick \<in> set candidates" and cc: "cap_check ctx ?gs1 pick role"
      and ro: "rest_ok (gs_db ?gs1) pick d role shift" by auto
    from pc cs have pp: "pick \<in> set pool" and pv0: "value_on (gs_db gs) w pick d = Some ''Set''"
      by auto
    from pv0 have pv: "value_on (gs_db ?gs1) w pick d = Some ''Set''"
      using same_values_value_on[OF sv] by simp
    then obtain a where a: "get_assignment s1 w pick d = Some a"
      by (auto simp: value_on_def)
    from assms(1) f pb Some a have
      g': "gs' = ?gs1\<lparr>gs_db := set_value w pick d shift s1,
                      assigned_counts := (assigned_counts ?gs1)(pick := assigned_counts ?gs1 pick + 1),
                      last_token_per_role :=
                        (last_token_per_role ?gs1)((pick, role) := Some (pref_token role shift))\<rparr>"
      and p': "pool' = remove1 pick pool"
      by (auto simp: dept_shift_step_def Let_def)
    have "day_reach ctx w role d ?gs1 gs'"
      using day_reach.assign[OF day_reach.start pv ro assms(2) cc, of
          "(last_token_per_role ?gs1)((pick, role) := Some (pref_token role shift))"]
        pp assms(3) unfolding g' by auto
    with day_reach_trans[OF _ r1] p' set_remove1_subset[of pick pool] show ?thesis by auto
  qed
qed

lemma dept_day_reach:
  assumes "dept_day ctx w reserved role ids shifts d gs = Inr gs'"
    and "\<forall>shift \<in> set shifts. label_ok role shift shift"
    and "set ids \<subseteq> set (role_ids ctx role)"
  shows "day_reach ctx w role d gs gs'"
proof -
  from assms(1) obtain pool' where
    f: "fold_err (dept_shift_step ctx w reserved role d) shifts (ids, gs) = Inr (pool', gs')"
    by (auto simp: dept_day_def split: sum.splits)
  have "day_reach ctx w role d gs (snd (pool', gs')) \<and>
        set (fst (pool', gs')) \<subseteq> set (role_ids ctx role)"
  proof (rule fold_err_induct[OF f,
        where P = "\<lambda>t. day_reach ctx w role d gs (snd t) \<and>
                        set (fst t) \<subseteq> set (role_ids ctx role)"])
    show "day_reach ctx w role d gs (snd (ids, gs)) \<and> set (fst (ids, gs)) \<subseteq> set (role_ids ctx role)"
      using assms(3) by (simp add: day_reach.start)
  next
    fix x t t'
    assume x: "x \<in> set shifts"
      and t: "day_reach ctx w role d gs (snd t) \<and> set (fst t) \<subseteq> set (role_ids ctx role)"
      and s: "dept_shift_step ctx w reserved role d x t = Inr t'"
    obtain pool1 g1 where t1: "t = (pool1, g1)" by (cases t)
    obtain pool2 g2 where t2: "t' = (pool2, g2)" by (cases t')
    from x assms(2) have lo: "label_ok role x x" by simp
    from dept_shift_step_reach[OF s[unfolded t1 t2] lo] t t1
    have "day_reach ctx w role d g1 g2" "set pool2 \<subseteq> set pool1" by auto
    with t t1 t2 day_reach_trans show
      "day_reach ctx w role d gs (snd t') \<and> set (fst t') \<subseteq> set (role_ids ctx role)"
      by auto
  qed
  then show ?thesis by simp
qed

lemma bb_labels_ok: "\<forall>shift \<in> set BB_PASS_SHIFTS. label_ok ''Breakfast Bar'' shift shift"
  by (simp add: label_ok_def)

lemma sh_labels_ok: "\<forall>shift \<in> set SH_PASS_VARIANTS. label_ok ''Shuttle'' shift shift"
  by (simp add: label_ok_def)

lemma bb_day_reach:
  "dept_day ctx w reserved ''Breakfast Bar'' (bb_emp_ids ctx) BB_PASS_SHIFTS d gs = Inr gs' \<Longrightarrow>
   day_reach ctx w ''Breakfast Bar'' d gs gs'"
  by (erule dept_day_reach[OF _ bb_labels_ok]) (simp add: role_ids_def)

lemma sh_day_reach:
  "dept_day ctx w reserved ''Shuttle'' (sh_emp_ids ctx) SH_PASS_VARIANTS d gs = Inr gs' \<Longrightarrow>
   day_reach ctx w ''Shuttle'' d gs gs'"
  by (erule dept_day_reach[OF _ sh_labels_ok]) (simp add: role_ids_def)

section \<open>Weekly caps\<close>

lemma filter_update_first_eq:
  "(\<And>x. P x \<Longrightarrow> Q (f x) = Q x) \<Longrightarrow>
   length (filter Q (update_first P f xs)) = length (filter Q xs)"
  by (induction xs) auto

lemma filter_update_first_le_Suc:
  "length (filter Q (update_first P f xs)) \<le> Suc (length (filter Q xs))"
  by (induction xs) auto

lemma filter_update_first_le:
  "(\<And>x. \<not> Q (f x)) \<Longrightarrow> length (filter Q (update_first P f xs)) \<le> length (filter Q xs)"
  by (induction xs) auto

lemma week_count_view:
  "week_count s w e =
     length (filter (\<lambda>(w', e', d', v). w' = w \<and> e' = e \<and> v \<noteq> [] \<and> \<not> is_placeholder v)
               (map val_view (db_assignments s)))"
  by (simp add: week_count_def filter_map comp_def val_view_def)

lemma same_values_week_count: "same_values s s' \<Longrightarrow> week_count s' w e = week_count s w e"
  by (simp add: week_count_view same_values_def)

lemma week_count_set_value_other:
  "w' \<noteq> w \<or> e' \<noteq> p \<Longrightarrow> week_count (set_value w p d v s) w' e' = week_count s w' e'"
  unfolding week_count_def set_value_def update_assignment_def
  by (simp, rule filter_update_first_eq) auto

lemma week_count_set_value_le:
  "week_count (set_value w p d v s) w' e' \<le> Suc (week_count s w' e')"
  unfolding week_count_def set_value_def update_assignment_def
  by (simp add: filter_update_first_le_Suc)

lemma week_count_set_time_off:
  "week_count (set_value w p d TIME_OFF_LABEL s) w' e' \<le> week_count s w' e'"
  unfolding week_count_def set_value_def update_assignment_def
  by (simp, rule filter_update_first_le) (simp add: is_placeholder_def)

lemma cap_ok_0: "cap_ok ctx eid 0"
  by (auto simp: cap_ok_def week_cap_def split: option.splits)

lemma cap_step:
  assumes "cap_check ctx gs p role" and "p \<in> set (role_ids ctx role)"
    and "0 \<le> assigned_counts gs p"
  shows "cap_ok ctx p (assigned_counts gs p + 1)"
proof -
  from assms(1) obtain maxw where
    mx: "effective_max_for_role ctx p role = Inr maxw"
    and lt: "\<And>m. maxw = Some m \<Longrightarrow> assigned_counts gs p < m"
    by (auto simp: cap_check_def)
  from mx obtain info where info: "emp_info ctx p = Some info"
    by (auto simp: effective_max_for_role_def split: option.splits)
  show ?thesis
  proof (cases "ei_max_per_week info")
    case (Some m)
    with mx info have "maxw = Some m" by (simp add: effective_max_for_role_def)
    from lt[OF this] assms(3) Some info show ?thesis
      by (simp add: cap_ok_def week_cap_def)
  next
    case None
    show ?thesis
    proof (cases "role = ''Front Desk''")
      case True
      with mx info None have "maxw = Some 5" by (simp add: effective_max_for_role_def)
      from lt[OF this] True assms(2) None info show ?thesis
        by (simp add: cap_ok_def week_cap_def role_ids_def)
    next
      case nfd: False
      show ?thesis
      proof (cases "role = ''Shuttle''")
        case True
        with mx info None have "maxw = Some 4" by (simp add: effective_max_for_role_def)
        from lt[OF this] True assms(2) None info show ?thesis
          by (simp add: cap_ok_def week_cap_def role_ids_def)
      next
        case False
        with nfd assms(2) None info show ?thesis
          by (simp add: cap_ok_def week_cap_def role_ids_def)
      qed
    qed
  qed
qed

lemma day_reach_cap_inv:
  assumes "day_reach ctx w role d gs gs'" and "cap_inv ctx w eid gs"
  shows "cap_inv ctx w eid gs'"
  using assms
proof (induction rule: day_reach.induct)
  case start
  then show ?case by simp
next
  case (mark gs1 e)
  then show ?case
    by (simp add: cap_inv_def same_values_week_count[OF same_values_mark_dismissed])
next
  case (assign gs1 p label v lt)
  from assign.IH[OF assign.prems] have inv: "cap_inv ctx w eid gs1" .
  show ?case
  proof (cases "p = eid")
    case False
    with inv show ?thesis
      by (simp add: cap_inv_def week_count_set_value_other)
  next
    case True
    from inv have nn: "0 \<le> assigned_counts gs1 p" using True by (simp add: cap_inv_def)
    from cap_step[OF assign.hyps(5,6) nn] inv True
      week_count_set_value_le[of w p d v "gs_db gs1" w eid]
    show ?thesis by (simp add: cap_inv_def)
  qed
qed

lemma day_reach_other_week:
  assumes "day_reach ctx w role d gs gs'" and "w' \<noteq> w"
  shows "week_count (gs_db gs') w' e = week_count (gs_db gs) w' e"
  using assms
proof (induction rule: day_reach.induct)
  case start
  then show ?case by simp
next
  case (mark gs1 e')
  then show ?case by (simp add: same_values_week_count[OF same_values_mark_dismissed])
next
  case (assign gs1 p label v lt)
  then show ?case by (simp add: week_count_set_value_other)
qed

lemma day_reach_week_inv:
  "day_reach ctx w role d gs gs' \<Longrightarrow> week_inv ctx w eid gs0 gs \<Longrightarrow> week_inv ctx w eid gs0 gs'"
  by (simp add: week_inv_def day_reach_cap_inv day_reach_other_week)

lemma fd_pass_week_inv:
  assumes "fd_pass ctx wk gs = Inr gs'" and "week_inv ctx (w_id wk) eid gs0 gs"
  shows "week_inv ctx (w_id wk) eid gs0 gs'"
  by (rule fold_err_induct[OF assms(1)[unfolded fd_pass_def],
        where P = "week_inv ctx (w_id wk) eid gs0"])
     (auto simp: assms(2) dest: fd_day_reach intro: day_reach_week_inv)

lemma bb_pass_week_inv:
  assumes "bb_pass ctx wk reserved gs = Inr gs'" and "week_inv ctx (w_id wk) eid gs0 gs"
  shows "week_inv ctx (w_id wk) eid gs0 gs'"
  by (rule fold_err_induct[OF assms(1)[unfolded bb_pass_def dept_pass_def],
        where P = "week_inv ctx (w_id wk) eid gs0"])
     (auto simp: assms(2) dest: bb_day_reach intro: day_reach_week_inv)

lemma sh_pass_week_inv:
  assumes "sh_pass ctx wk reserved gs = Inr gs'" and "week_inv ctx (w_id wk) eid gs0 gs"
  shows "week_inv ctx (w_id wk) eid gs0 gs'"
  by (rule fold_err_induct[OF assms(1)[unfolded sh_pass_def dept_pass_def],
        where P = "week_inv ctx (w_id wk) eid gs0"])
     (auto simp: assms(2) dest: sh_day_reach intro: day_reach_week_inv)

lemma find_append_new:
  "find P xs = None \<Longrightarrow> P x \<Longrightarrow> find P (xs @ [x]) = Some x"
  by (induction xs) (auto split: if_splits)

lemma ensure_fold_weeks:
  "db_weeks (fold (\<lambda>emp. fold (ensure_assignment w (e_id emp)) ds) emps t) = db_weeks t"
proof -
  have inner: "db_weeks (fold (ensure_assignment w e) ds t) = db_weeks t" for t e
    by (rule fold_induct) (auto simp: ensure_assignment_def split: option.splits)
  show ?thesis
    by (rule fold_induct) (auto simp: inner)
qed

lemma ensure_week_found:
  assumes "ensure_week_and_assignments s start_d = (s1, wk)"
  shows "find (\<lambda>w. w_start_date w = start_d) (db_weeks s1) = Some wk"
  using assms
  by (auto simp: ensure_week_and_assignments_def Let_def ensure_fold_weeks find_append_new
      split: option.splits)

lemma week_count_ensure_assignment:
  "week_count (ensure_assignment w e d s) w' e' = week_count s w' e'"
  by (simp add: ensure_assignment_def week_count_def is_placeholder_def split: option.splits)

lemma week_count_ensure:
  assumes "ensure_week_and_assignments s start_d = (s1, wk)"
  shows "week_count s1 w' e' = week_count s w' e'"
proof -
  have inner: "week_count (fold (ensure_assignment w e) ds t) w' e' = week_count t w' e'"
    for t w e ds
    by (rule fold_induct) (auto simp: week_count_ensure_assignment)
  have outer: "week_count (fold (\<lambda>emp. fold (ensure_assignment w (e_id emp)) ds) emps t) w' e'
                 = week_count t w' e'" for t w ds emps
    by (rule fold_induct) (auto simp: inner)
  have addw: "week_count (s\<lparr>db_weeks := ws\<rparr>) w' e' = week_count s w' e'" for ws
    by (simp add: week_count_def)
  from assms show ?thesis
    by (auto simp: ensure_week_and_assignments_def Let_def outer addw split: option.splits)
qed

lemma week_count_reset_same: "week_count (reset_week w s) w e = 0"
  by (simp add: week_count_def reset_week_def filter_map comp_def is_placeholder_def)

lemma week_count_reset_other: "w' \<noteq> w \<Longrightarrow> week_count (reset_week w s) w' e = week_count s w' e"
proof -
  assume ne: "w' \<noteq> w"
  have "length (filter (\<lambda>a. a_week_id a = w' \<and> a_employee_id a = e \<and> a_value a \<noteq> [] \<and>
                         \<not> is_placeholder (a_value a))
          (map (\<lambda>a. if a_week_id a = w
                   then a\<lparr>a_value := ''Set'', a_dismissed_timeoff := False\<rparr> else a) xs))
        = length (filter (\<lambda>a. a_week_id a = w' \<and> a_employee_id a = e \<and> a_value a \<noteq> [] \<and>
                         \<not> is_placeholder (a_value a)) xs)" for xs
    using ne by (induction xs) auto
  then show ?thesis unfolding week_count_def reset_week_def by simp
qed

lemma week_count_sync_day_le: "week_count (sync_day w emp d s) w' e' \<le> week_count s w' e'"
  by (simp add: sync_day_def week_count_set_time_off split: option.splits)

lemma week_count_sync_day_other:
  "w' \<noteq> w \<Longrightarrow> week_count (sync_day w emp d s) w' e' = week_count s w' e'"
  by (simp add: sync_day_def week_count_set_value_other split: option.splits)

lemma week_count_sync_le:
  assumes "sync_timeoff_to_assignments w s = Inr s'"
  shows "week_count s' w' e' \<le> week_count s w' e'"
proof -
  have emp: "week_count (sync_emp w ds emp t) w' e' \<le> week_count t w' e'" for ds emp t
    unfolding sync_emp_def
  proof (induction ds arbitrary: t)
    case Nil
    then show ?case by simp
  next
    case (Cons x ds)
    from Cons[of "sync_day w emp x t"] week_count_sync_day_le[of w emp x t w' e']
    show ?case by simp
  qed
  have all: "week_count (fold (sync_emp w ds) emps t) w' e' \<le> week_count t w' e'" for ds emps t
  proof (induction emps arbitrary: t)
    case Nil
    then show ?case by simp
  next
    case (Cons x emps)
    from Cons[of "sync_emp w ds x t"] emp[of ds x t] show ?case by simp
  qed
  from assms show ?thesis
    by (auto simp: sync_timeoff_to_assignments_def all split: option.splits)
qed

lemma week_count_sync_other:
  assumes "sync_timeoff_to_assignments w s = Inr s'" and "w' \<noteq> w"
  shows "week_count s' w' e' = week_count s w' e'"
proof -
  have emp: "week_count (sync_emp w ds emp t) w' e' = week_count t w' e'" for ds emp t
    unfolding sync_emp_def
    by (rule fold_induct[where P = "\<lambda>u. week_count u w' e' = week_count t w' e'"])
       (auto simp: week_count_sync_day_other[OF assms(2)])
  have all: "week_count (fold (sync_emp w ds) emps t) w' e' = week_count t w' e'" for ds emps t
    by (rule fold_induct[where P = "\<lambda>u. week_count u w' e' = week_count t w' e'"])
       (auto simp: emp)
  from assms(1) show ?thesis
    by (auto simp: sync_timeoff_to_assignments_def all split: option.splits)
qed

lemma gen_week_cap:
  assumes "gen_week ctx start_d s = Inr s'"
  shows "\<exists>wk. find (\<lambda>w. w_start_date w = start_d) (db_weeks s') = Some wk \<and>
              bounded_week ctx eid s' (w_id wk) \<and>
              (\<forall>w'. bounded_week ctx eid s w' \<longrightarrow> bounded_week ctx eid s' w')"
proof -
  obtain s1 wk where en: "ensure_week_and_assignments s start_d = (s1, wk)"
    by (cases "ensure_week_and_assignments s start_d")
  let ?w = "w_id wk"
  let ?gs0 = "init_gen_state (reset_week ?w s1)"
  from assms en obtain gs1 gs2 gs3 where
    p1: "fd_pass ctx wk ?gs0 = Inr gs1" and
    p2: "bb_pass ctx wk (reserved_fd_by_date ctx (gs_db gs1) wk) gs1 = Inr gs2" and
    p3: "sh_pass ctx wk (reserved_fd_by_date ctx (gs_db gs1) wk) gs2 = Inr gs3" and
    p4: "sync_timeoff_to_assignments ?w (gs_db gs3) = Inr s'"
    by (auto simp: gen_week_def Let_def split: sum.splits)
  have "evolves s s1" using evolves_ensure[of s start_d] en by simp
  have ev: "evolves s1 s'"
  proof -
    note [trans] = evolves_trans
    have "evolves s1 (gs_db ?gs0)" by (simp add: init_gen_state_def)
    also have "evolves (gs_db ?gs0) (gs_db gs1)" using p1 by (rule evolves_fd_pass)
    also have "evolves (gs_db gs1) (gs_db gs2)"
      using p2 unfolding bb_pass_def by (rule evolves_dept_pass)
    also have "evolves (gs_db gs2) (gs_db gs3)"
      using p3 unfolding sh_pass_def by (rule evolves_dept_pass)
    also have "evolves (gs_db gs3) s'" using p4 by (rule evolves_sync)
    finally show ?thesis .
  qed
  from ensure_week_found[OF en] ev
  have found: "find (\<lambda>w. w_start_date w = start_d) (db_weeks s') = Some wk"
    by (auto simp: evolves_def intro: find_Some_prefix)
  have i0: "week_inv ctx ?w eid ?gs0 ?gs0"
    by (simp add: week_inv_def cap_inv_def init_gen_state_def week_count_reset_same cap_ok_0)
  from sh_pass_week_inv[OF p3 bb_pass_week_inv[OF p2 fd_pass_week_inv[OF p1 i0]]]
  have i3: "week_inv ctx ?w eid ?gs0 gs3" .
  then have c3: "cap_ok ctx eid (assigned_counts gs3 eid)"
    and le3: "int (week_count (gs_db gs3) ?w eid) \<le> assigned_counts gs3 eid"
    and o3: "\<And>w' e. w' \<noteq> ?w \<Longrightarrow> week_count (gs_db gs3) w' e = week_count (gs_db ?gs0) w' e"
    by (auto simp: week_inv_def cap_inv_def)
  from week_count_sync_le[OF p4, of ?w eid] le3
  have "int (week_count s' ?w eid) \<le> assigned_counts gs3 eid" by simp
  with c3 have b: "bounded_week ctx eid s' ?w"
    by (auto simp: bounded_week_def cap_ok_def split: option.splits)
  have other: "week_count s' w' eid = week_count s w' eid" if "w' \<noteq> ?w" for w'
    using week_count_sync_other[OF p4 that] o3[OF that] week_count_ensure[OF en] that
    by (simp add: init_gen_state_def week_count_reset_other)
  have "bounded_week ctx eid s' w'" if "bounded_week ctx eid s w'" for w'
    using that b other[of w'] by (cases "w' = ?w") (auto simp: bounded_week_def)
  with found b show ?thesis by blast
qed

lemma gen_weeks_keep:
  assumes "fold_err (\<lambda>off. gen_week ctx (base + 7 * off)) offs t = Inr s'"
    and "find P (db_weeks t) = Some wk" and "bounded_week ctx eid t (w_id wk)"
  shows "find P (db_weeks s') = Some wk \<and> bounded_week ctx eid s' (w_id wk)"
proof (rule fold_err_induct[OF assms(1),
      where P = "\<lambda>u. find P (db_weeks u) = Some wk \<and> bounded_week ctx eid u (w_id wk)"])
  show "find P (db_weeks t) = Some wk \<and> bounded_week ctx eid t (w_id wk)"
    using assms(2,3) by simp
next
  fix x u u'
  assume u: "find P (db_weeks u) = Some wk \<and> bounded_week ctx eid u (w_id wk)"
    and g: "gen_week ctx (base + 7 * x) u = Inr u'"
  from evolves_gen_week[OF g] u have "find P (db_weeks u') = Some wk"
    by (auto simp: evolves_def intro: find_Some_prefix)
  moreover from gen_week_cap[OF g, of eid] u have "bounded_week ctx eid u' (w_id wk)" by blast
  ultimately show "find P (db_weeks u') = Some wk \<and> bounded_week ctx eid u' (w_id wk)" by simp
qed

lemma gen_weeks_cap:
  assumes "fold_err (\<lambda>off. gen_week ctx (base + 7 * off)) offs s = Inr s'" and "k \<in> set offs"
  shows "\<exists>wk. find (\<lambda>w. w_start_date w = base + 7 * k) (db_weeks s') = Some wk \<and>
              bounded_week ctx eid s' (w_id wk)"
  using assms
proof (induction offs arbitrary: s)
  case Nil
  then show ?case by simp
next
  case (Cons x offs)
  from Cons.prems(1) obtain t where g: "gen_week ctx (base + 7 * x) s = Inr t"
    and r: "fold_err (\<lambda>off. gen_week ctx (base + 7 * off)) offs t = Inr s'"
    by (auto split: sum.splits)
  show ?case
  proof (cases "k \<in> set offs")
    case True
    from Cons.IH[OF r True] show ?thesis .
  next
    case False
    with Cons.prems(2) have kx: "k = x" by simp
    from gen_week_cap[OF g, of eid] obtain wk where
      "find (\<lambda>w. w_start_date w = base + 7 * x) (db_weeks t) = Some wk"
      "bounded_week ctx eid t (w_id wk)" by blast
    from gen_weeks_keep[OF r this] kx show ?thesis by blast
  qed
qed

section \<open>The coverage snapshot\<close>

lemma map_of_dict_store:
  "map_of (dict_store k v xs) k' = (if k' = k then Some v else map_of xs k')"
  by (induction xs) auto

lemma map_of_const_map:
  "map_of (map (\<lambda>k. (k, f k)) xs) k = (if k \<in> set xs then Some (f k) else None)"
  by (induction xs) auto

lemma fold_err_total:
  assumes "P s" and "\<And>x t. x \<in> set xs \<Longrightarrow> P t \<Longrightarrow> \<exists>t'. f x t = Inr t' \<and> P t'"
  shows "\<exists>s'. fold_err f xs s = Inr s' \<and> P s'"
  using assms
proof (induction xs arbitrary: s)
  case Nil
  then show ?case by simp
next
  case (Cons x xs)
  have "\<exists>t'. f x s = Inr t' \<and> P t'" by (rule Cons.prems(2)) (simp_all add: Cons.prems(1))
  then obtain t where t: "f x s = Inr t" "P t" by blast
  have "\<exists>s'. fold_err f xs t = Inr s' \<and> P s'"
  proof (rule Cons.IH[OF t(2)])
    fix y u assume "y \<in> set xs" "P u"
    then show "\<exists>t'. f y u = Inr t' \<and> P t'" using Cons.prems(2)[of y u] by simp
  qed
  with t show ?case by simp
qed



lemma has_keys_store:
  assumes "has_keys dates variants counts" and "\<forall>u \<in> set variants. map_of row' u \<noteq> None"
  shows "has_keys dates variants (dict_store k row' counts)"
  unfolding has_keys_def
proof
  fix k' assume k': "k' \<in> set dates"
  show "\<exists>row. map_of (dict_store k row' counts) k' = Some row \<and>
              (\<forall>v \<in> set variants. map_of row v \<noteq> None)"
  proof (cases "k' = k")
    case True
    with assms(2) show ?thesis by (simp add: map_of_dict_store)
  next
    case False
    with assms(1) k' show ?thesis by (simp add: map_of_dict_store has_keys_def)
  qed
qed

lemma has_keys_row:
  assumes "has_keys dates variants counts" and "k \<in> set dates"
  shows "\<exists>row. map_of counts k = Some row \<and> (\<forall>u \<in> set variants. map_of row u \<noteq> None)"
  using assms unfolding has_keys_def by simp

lemma incr_ok:
  assumes "has_keys dates variants counts" and "k \<in> set dates" and "v \<in> set variants"
  shows "\<exists>c. incr k v counts = Inr c \<and> has_keys dates variants c"
proof -
  from has_keys_row[OF assms(1,2)] obtain row where r: "map_of counts k = Some row"
    and all: "\<forall>u \<in> set variants. map_of row u \<noteq> None" by blast
  from all assms(3) obtain n where n: "map_of row v = Some n" by blast
  have "\<forall>u \<in> set variants. map_of (dict_store v (n + 1) row) u \<noteq> None"
    using all by (simp add: map_of_dict_store)
  from has_keys_store[OF assms(1) this]
  have "has_keys dates variants (dict_store k (dict_store v (n + 1) row) counts)" .
  with r n show ?thesis by (simp add: incr_def)
qed

lemma incr_label_ok:
  assumes "has_keys dates variants flc" and "k \<in> set dates" and "v \<in> set variants"
  shows "\<exists>c. incr_label k v l flc = Inr c \<and> has_keys dates variants c"
proof -
  from has_keys_row[OF assms(1,2)] obtain row where r: "map_of flc k = Some row"
    and all: "\<forall>u \<in> set variants. map_of row u \<noteq> None" by blast
  from all assms(3) obtain ex where n: "map_of row v = Some ex" by blast
  let ?e = "dict_store l ((case map_of ex l of None \<Rightarrow> 0 | Some n \<Rightarrow> n) + 1) ex"
  have "\<forall>u \<in> set variants. map_of (dict_store v ?e row) u \<noteq> None"
    using all by (simp add: map_of_dict_store)
  from has_keys_store[OF assms(1) this]
  have "has_keys dates variants (dict_store k (dict_store v ?e row) flc)" .
  with r n show ?thesis by (simp add: incr_label_def)
qed

lemma find_SomeD: "find P xs = Some x \<Longrightarrow> P x \<and> x \<in> set xs"
  by (induction xs) (auto split: if_splits)



lemma cov_fd_bump_ok:
  assumes "cov_ok dates st" and "a_date a \<in> set dates" and "v \<in> set SHIFT_VARIANTS"
  shows "\<exists>st'. cov_fd_bump v a st = Inr st' \<and> cov_ok dates st'"
proof -
  from assms(1) have h: "has_keys dates SHIFT_VARIANTS (cs_counts st)"
    "has_keys dates SHIFT_VARIANTS (cs_fd_label_counts st)" by (auto simp: cov_ok_def)
  from incr_ok[OF h(1) assms(2,3)] obtain c where
    c: "incr (a_date a) v (cs_counts st) = Inr c" "has_keys dates SHIFT_VARIANTS c" by auto
  from incr_label_ok[OF h(2) assms(2,3), of "a_value a"] obtain f where
    f: "incr_label (a_date a) v (a_value a) (cs_fd_label_counts st) = Inr f"
    "has_keys dates SHIFT_VARIANTS f" by auto
  from c f assms(1) show ?thesis by (simp add: cov_fd_bump_def cov_ok_def)
qed

lemma cov_fd_ok:
  assumes "cov_ok dates st" and "a_date a \<in> set dates"
  shows "\<exists>st'. cov_fd a st = Inr st' \<and> cov_ok dates st'"
  using cov_fd_bump_ok[OF assms, of "''AM''"] cov_fd_bump_ok[OF assms, of "''PM''"]
    cov_fd_bump_ok[OF assms, of "''Audit''"] assms(1)
  by (simp add: cov_fd_def SHIFT_VARIANTS_def)

lemma cov_sh_bump_ok:
  assumes "cov_ok dates st" and "a_date a \<in> set dates" and "v \<in> set SH_VARIANTS"
  shows "\<exists>st'. cov_sh_bump v a st = Inr st' \<and> cov_ok dates st'"
proof -
  from assms(1) have h: "has_keys dates SH_VARIANTS (cs_sh_counts st)" by (auto simp: cov_ok_def)
  from incr_ok[OF h assms(2,3)] obtain c where
    c: "incr (a_date a) v (cs_sh_counts st) = Inr c" "has_keys dates SH_VARIANTS c" by auto
  from c assms(1) show ?thesis by (simp add: cov_sh_bump_def cov_ok_def)
qed

lemma cov_sh_ok:
  assumes "cov_ok dates st" and "a_date a \<in> set dates"
  shows "\<exists>st'. cov_sh a st = Inr st' \<and> cov_ok dates st'"
  using cov_sh_bump_ok[OF assms, of "''AM''"] cov_sh_bump_ok[OF assms, of "''Midday''"]
    cov_sh_bump_ok[OF assms, of "''PM''"] cov_sh_bump_ok[OF assms, of "''Crew''"] assms(1)
  by (simp add: cov_sh_def SH_VARIANTS_def)

lemma cov_bb_ok:
  assumes "cov_ok dates st" and "a_date a \<in> set dates"
  shows "\<exists>st'. cov_bb a st = Inr st' \<and> cov_ok dates st'"
proof (cases "a_value a \<in> set BB_VARIANTS")
  case True
  from assms(1) have h: "has_keys dates BB_VARIANTS (cs_bb_counts st)" by (auto simp: cov_ok_def)
  from incr_ok[OF h assms(2) True] obtain c where
    c: "incr (a_date a) (a_value a) (cs_bb_counts st) = Inr c" "has_keys dates BB_VARIANTS c"
    by auto
  from c assms(1) True show ?thesis by (simp add: cov_bb_def cov_ok_def)
next
  case False
  with assms(1) show ?thesis by (simp add: cov_bb_def)
qed

lemma cov_row_ok:
  assumes "cov_ok dates st" and "a_date a \<in> set dates"
  shows "\<exists>st'. cov_row a st = Inr st' \<and> cov_ok dates st'"
proof -
  from cov_fd_ok[OF assms] obtain st1 where 1: "cov_fd a st = Inr st1" "cov_ok dates st1" by auto
  from cov_sh_ok[OF 1(2) assms(2)] obtain st2 where 2: "cov_sh a st1 = Inr st2" "cov_ok dates st2"
    by auto
  from cov_bb_ok[OF 2(2) assms(2)] obtain st3 where 3: "cov_bb a st2 = Inr st3" "cov_ok dates st3"
    by auto
  from 1 2 3 assms(1) show ?thesis by (simp add: cov_row_def)
qed

lemma coverage_length:
  "coverage_snapshot_db w s = Inr snap \<Longrightarrow> length snap = 11"
  by (auto simp: coverage_snapshot_db_def Let_def split: option.splits sum.splits)



lemma coverage_total:
  assumes "get_week s w = Some wk" and "week_rows_in_week s wk"
  shows "\<exists>snap. coverage_snapshot_db w s = Inr snap"
proof -
  let ?dates = "daterange (w_start_date wk) 7"
  let ?init = "\<lparr>cs_counts = map (\<lambda>k. (k, map (\<lambda>v. (v, 0)) SHIFT_VARIANTS)) ?dates,
                 cs_fd_label_counts =
                   map (\<lambda>k. (k, [(''AM'', []), (''PM'', []), (''Audit'', [])])) ?dates,
                 cs_sh_counts = map (\<lambda>k. (k, map (\<lambda>v. (v, 0)) SH_VARIANTS)) ?dates,
                 cs_bb_counts = map (\<lambda>k. (k, map (\<lambda>v. (v, 0::int)) BB_VARIANTS)) ?dates\<rparr>"
  from assms(1) have wid: "w_id wk = w"
    unfolding get_week_def by (rule find_SomeD[THEN conjunct1])
  have i: "cov_ok ?dates ?init"
    by (simp add: cov_ok_def has_keys_def map_of_const_map SHIFT_VARIANTS_def SH_VARIANTS_def
        BB_VARIANTS_def)
  have "\<exists>st. fold_err cov_row (filter (\<lambda>a. a_week_id a = w) (db_assignments s)) ?init = Inr st \<and>
             cov_ok ?dates st"
  proof (rule fold_err_total[where P = "cov_ok ?dates", OF i])
    fix x t
    assume "x \<in> set (filter (\<lambda>a. a_week_id a = w) (db_assignments s))" and t: "cov_ok ?dates t"
    with assms(2) wid have "a_date x \<in> set ?dates" by (auto simp: week_rows_in_week_def)
    from cov_row_ok[OF t this] show "\<exists>t'. cov_row x t = Inr t' \<and> cov_ok ?dates t'" .
  qed
  then obtain st where
    "fold_err cov_row (filter (\<lambda>a. a_week_id a = w) (db_assignments s)) ?init = Inr st" by blast
  with assms(1) show ?thesis
    by (simp add: coverage_snapshot_db_def Let_def)
qed

section \<open>The toggle endpoint\<close>

lemma week_rows_in_week_keys:
  "week_rows_in_week s wk \<longleftrightarrow>
     (\<forall>k \<in> set (map akey (db_assignments s)).
        fst k = w_id wk \<longrightarrow> snd (snd k) \<in> set (daterange (w_start_date wk) 7))"
  by (auto simp: week_rows_in_week_def akey_def)

lemma week_rows_keys_cong:
  "map akey (db_assignments s') = map akey (db_assignments s) \<Longrightarrow>
   week_rows_in_week s' wk = week_rows_in_week s wk"
  by (simp only: week_rows_in_week_keys)

lemma set_value_frame:
  "db_weeks (set_value w e d v s) = db_weeks s"
  "db_timeoff (set_value w e d v s) = db_timeoff s"
  "db_employees (set_value w e d v s) = db_employees s"
  "map akey (db_assignments (set_value w e d v s)) = map akey (db_assignments s)"
  by (simp_all add: set_value_def update_assignment_def map_akey_update_first)

lemma toggle_day_frame:
  "db_weeks (toggle_day approved to wk emp d s) = db_weeks s"
  "db_timeoff (toggle_day approved to wk emp d s) = db_timeoff s"
  "db_employees (toggle_day approved to wk emp d s) = db_employees s"
  "map akey (db_assignments (toggle_day approved to wk emp d s)) = map akey (db_assignments s)"
  by (simp_all add: toggle_day_def Let_def set_value_frame split: option.splits)

lemma toggle_fold_frame:
  "db_weeks (fold (toggle_day approved to wk emp) ds s) = db_weeks s \<and>
   db_timeoff (fold (toggle_day approved to wk emp) ds s) = db_timeoff s \<and>
   map akey (db_assignments (fold (toggle_day approved to wk emp) ds s))
     = map akey (db_assignments s)"
  by (induction ds arbitrary: s) (simp_all add: toggle_day_frame)



lemma value_on_toggle_day:
  "value_on (toggle_day approved to wk emp d' s) w e d =
     (if w = w_id wk \<and> e = e_id emp \<and> d = d' \<and> t_from_date to \<le> d \<and> d \<le> t_to_date to
      then map_option (toggled_value approved) (value_on s w e d)
      else value_on s w e d)"
proof (cases "get_assignment s (w_id wk) (e_id emp) d'")
  case None
  then show ?thesis by (auto simp: toggle_day_def value_on_def)
next
  case (Some a)
  then have v: "value_on s (w_id wk) (e_id emp) d' = Some (a_value a)"
    by (simp add: value_on_def)
  show ?thesis
    unfolding toggle_day_def Let_def Some option.case
    using v by (auto simp: value_on_set_value toggled_value_def)
qed

lemma value_on_toggle_fold:
  assumes "distinct ds"
  shows "value_on (fold (toggle_day approved to wk emp) ds s) w e d =
     (if d \<in> set ds \<and> w = w_id wk \<and> e = e_id emp \<and> t_from_date to \<le> d \<and> d \<le> t_to_date to
      then map_option (toggled_value approved) (value_on s w e d)
      else value_on s w e d)"
  using assms
proof (induction ds arbitrary: s)
  case Nil
  then show ?case by simp
next
  case (Cons x ds)
  from Cons.prems have dx: "x \<notin> set ds" and dd: "distinct ds" by auto
  show ?case
  proof (cases "d = x")
    case True
    with dx have "d \<notin> set ds" by simp
    with Cons.IH[OF dd, of "toggle_day approved to wk emp x s"] True
    show ?thesis by (simp add: value_on_toggle_day)
  next
    case False
    with Cons.IH[OF dd, of "toggle_day approved to wk emp x s"]
    show ?thesis by (simp add: value_on_toggle_day)
  qed
qed

lemma distinct_daterange: "distinct (daterange start_d n)"
  by (simp add: daterange_def distinct_map inj_on_def)

lemma unpack_snapshot:
  "coverage_snapshot_db w s = Inr snap \<Longrightarrow> unpack 10 snap = Inl ValueError"
  by (simp add: unpack_def coverage_length)

lemma value_on_timeoff_field:
  "value_on (s\<lparr>db_timeoff := ts\<rparr>) w e d = value_on s w e d"
  by (simp add: value_on_def get_assignment_def)

lemma toggle_timeoff_week:
  assumes "find (\<lambda>t. t_id t = tid) (db_timeoff s) = Some to"
    and "find (\<lambda>w. w_start_date w = BASELINE) (db_weeks s) = Some wk"
  shows "toggle_timeoff tid approved s =
     (toggle_committed tid approved to wk s,
      case coverage_snapshot_db (w_id wk) (toggle_committed tid approved to wk s) of
        Inl err \<Rightarrow> Inl err
      | Inr snap \<Rightarrow> (case unpack 10 snap of Inl err \<Rightarrow> Inl err | Inr names \<Rightarrow> Inl NameError))"
  by (cases "find (\<lambda>e. e_name e = t_name to) (db_employees s)")
     (simp_all add: toggle_timeoff_def toggle_committed_def Let_def assms)

lemma toggle_timeoff_no_week:
  assumes "find (\<lambda>t. t_id t = tid) (db_timeoff s) = Some to"
    and "find (\<lambda>w. w_start_date w = BASELINE) (db_weeks s) = None"
  shows "snd (toggle_timeoff tid approved s) = Inl AttributeError"
  by (cases "find (\<lambda>e. e_name e = t_name to) (db_employees s)")
     (simp_all add: toggle_timeoff_def Let_def assms)

lemma toggle_timeoff_raises:
  assumes "find (\<lambda>t. t_id t = tid) (db_timeoff s) = Some to"
  shows "isl (snd (toggle_timeoff tid approved s))"
proof (cases "find (\<lambda>w. w_start_date w = BASELINE) (db_weeks s)")
  case None
  from toggle_timeoff_no_week[OF assms None] show ?thesis by simp
next
  case (Some wk)
  show ?thesis
  proof (cases "coverage_snapshot_db (w_id wk) (toggle_committed tid approved to wk s)")
    case (Inl err)
    then show ?thesis by (simp add: toggle_timeoff_week[OF assms Some])
  next
    case (Inr snap)
    then show ?thesis by (simp add: toggle_timeoff_week[OF assms Some] unpack_snapshot)
  qed
qed

lemma toggle_committed_frame:
  "db_timeoff (toggle_committed tid approved to wk s) =
     update_first (\<lambda>t. t_id t = tid) (\<lambda>t. t\<lparr>t_approved := approved\<rparr>) (db_timeoff s)"
  "db_weeks (toggle_committed tid approved to wk s) = db_weeks s"
  "map akey (db_assignments (toggle_committed tid approved to wk s)) = map akey (db_assignments s)"
  by (cases "find (\<lambda>e. e_name e = t_name to) (db_employees s)";
      simp add: toggle_committed_def toggle_fold_frame)+

lemma toggle_committed_value:
  assumes "find (\<lambda>e. e_name e = t_name to) (db_employees s) = Some emp"
    and "d \<in> set (daterange (w_start_date wk) 7)"
    and "t_from_date to \<le> d" and "d \<le> t_to_date to"
    and "value_on s (w_id wk) (e_id emp) d = Some v"
  shows "value_on (toggle_committed tid approved to wk s) (w_id wk) (e_id emp) d =
           Some (toggled_value approved v)"
  using assms
  by (simp add: toggle_committed_def value_on_toggle_fold[OF distinct_daterange]
      value_on_timeoff_field)

section \<open>The assign endpoint\<close>






section \<open>The rest rule\<close>

lemma prev_value_day_value: "prev_value s e d = day_value s e (d - 1)"
  by (simp add: prev_value_def day_value_def)

lemma fd_variants_facts:
  "\<forall>(label, opts) \<in> set FD_VARIANTS. \<forall>v \<in> set opts.
     v \<in> set FRONT_DESK_SHIFTS \<and> \<not> is_placeholder v \<and>
     startswith label ''AM'' = startswith v ''AM'' \<and>
     startswith label ''PM'' = startswith v ''PM''"
  by code_simp

lemma sh_variants_facts:
  "\<forall>v \<in> set SH_PASS_VARIANTS. v \<in> set SHUTTLE_SHIFTS \<and> \<not> is_placeholder v"
  by code_simp

lemma bb_shifts_facts:
  "\<forall>v \<in> set BB_PASS_SHIFTS. v \<in> set BREAKFAST_SHIFTS \<and> \<not> is_placeholder v"
  by code_simp

lemma label_ok_fd:
  assumes "label_ok ''Front Desk'' label v"
  shows "in_dept ''Front Desk'' v \<and>
         startswith label ''AM'' = startswith v ''AM'' \<and>
         startswith label ''PM'' = startswith v ''PM''"
proof -
  from assms obtain opts where "(label, opts) \<in> set FD_VARIANTS" "v \<in> set opts"
    by (auto simp: label_ok_def)
  with fd_variants_facts show ?thesis
    by (fastforce simp: in_dept_def section_shifts_def)
qed

lemma label_ok_sh:
  assumes "label_ok ''Shuttle'' label v"
  shows "in_dept ''Shuttle'' v \<and> label = v"
proof -
  from assms have "v = label" "label \<in> set SH_PASS_VARIANTS" by (auto simp: label_ok_def)
  with sh_variants_facts show ?thesis by (auto simp: in_dept_def section_shifts_def)
qed

lemma label_ok_bb:
  assumes "label_ok ''Breakfast Bar'' label v"
  shows "in_dept ''Breakfast Bar'' v"
proof -
  from assms have "v = label" "label \<in> set BB_PASS_SHIFTS" by (auto simp: label_ok_def)
  with bb_shifts_facts show ?thesis by (auto simp: in_dept_def section_shifts_def)
qed

lemma label_ok_in_dept: "is_dept role \<Longrightarrow> label_ok role label v \<Longrightarrow> in_dept role v"
  using label_ok_fd label_ok_sh label_ok_bb by (auto simp: is_dept_def)

lemma in_dept_unique: "in_dept r v \<Longrightarrow> in_dept r' v \<Longrightarrow> r = r'"
  unfolding in_dept_def using section_shifts_unique by blast

lemma fd_label_in_dept: "fd_label variant v \<Longrightarrow> in_dept ''Front Desk'' v"
  by (simp add: fd_label_def in_dept_def section_shifts_def)

lemma sh_label_in_dept: "sh_label variant v \<Longrightarrow> in_dept ''Shuttle'' v"
  by (simp add: sh_label_def in_dept_def section_shifts_def)

lemma bad_pair_dept:
  "bad_pair pv v \<Longrightarrow>
   in_dept ''Front Desk'' pv \<and> in_dept ''Front Desk'' v \<or>
   in_dept ''Shuttle'' pv \<and> in_dept ''Shuttle'' v"
  unfolding bad_pair_def using fd_label_in_dept sh_label_in_dept by blast

lemma in_dept_active: "in_dept r v \<Longrightarrow> v \<noteq> [] \<and> \<not> is_placeholder v"
proof -
  assume a: "in_dept r v"
  have "[] \<notin> set (section_shifts r)"
    by (simp add: section_shifts_def BREAKFAST_SHIFTS_def FRONT_DESK_SHIFTS_def
        SHUTTLE_SHIFTS_def TIME_OFF_LABEL_def)
  with a show ?thesis by (auto simp: in_dept_def)
qed

lemma rest_ok_no_bad_pair:
  assumes "rest_ok s p d role label" and "label_ok role label v" and "is_dept role"
    and "day_value s p (d - 1) = Some pv"
  shows "\<not> bad_pair pv v"
proof
  assume b: "bad_pair pv v"
  from label_ok_in_dept[OF assms(3,2)] have rv: "in_dept role v" .
  from bad_pair_dept[OF b] in_dept_active have act: "pv \<noteq> []" "\<not> is_placeholder pv" by blast+
  note ro = assms(1)[unfolded rest_ok_prev_value prev_value_day_value assms(4) option.case]
  from b consider
    (1) "fd_label ''AM'' v" "fd_label ''PM'' pv"
    | (2) "fd_label ''PM'' v" "fd_label ''Audit'' pv"
    | (3) "sh_label ''AM'' v" "sh_label ''PM'' pv \<or> sh_label ''Crew'' pv"
    | (4) "sh_label ''Midday'' v" "sh_label ''Crew'' pv"
    unfolding bad_pair_def by blast
  then show False
  proof cases
    case 1
    from in_dept_unique[OF rv fd_label_in_dept[OF 1(1)]] have r: "role = ''Front Desk''" .
    from label_ok_fd[OF assms(2)[unfolded r]] 1 have "startswith label ''AM''" "startswith pv ''PM''"
      by (simp_all add: fd_label_def)
    with ro r act show False by simp
  next
    case 2
    from in_dept_unique[OF rv fd_label_in_dept[OF 2(1)]] have r: "role = ''Front Desk''" .
    from label_ok_fd[OF assms(2)[unfolded r]] 2 have "startswith label ''PM''" "startswith pv ''Audit''"
      by (simp_all add: fd_label_def)
    with ro r act show False by (simp split: if_splits)
  next
    case 3
    from in_dept_unique[OF rv sh_label_in_dept[OF 3(1)]] have r: "role = ''Shuttle''" .
    from label_ok_sh[OF assms(2)[unfolded r]] 3
    have "startswith label ''AM''" "startswith pv ''PM'' \<or> startswith pv ''Crew''"
      by (auto simp: sh_label_def)
    with ro r act show False by (simp split: if_splits)
  next
    case 4
    from in_dept_unique[OF rv sh_label_in_dept[OF 4(1)]] have r: "role = ''Shuttle''" .
    from label_ok_sh[OF assms(2)[unfolded r]] 4
    have "startswith label ''Midday''" "startswith pv ''Crew''"
      by (auto simp: sh_label_def)
    with ro r act show False by (simp split: if_splits)
  qed
qed

lemma bad_pair_next_in_dept:
  assumes "bad_pair v cur" and "in_dept role v"
  shows "in_dept role cur"
  using bad_pair_dept[OF assms(1)] in_dept_unique[OF assms(2)] by blast

lemma not_bad_placeholder:
  "is_placeholder x \<Longrightarrow> \<not> bad_pair x y \<and> \<not> bad_pair y x"
  using bad_pair_dept in_dept_active by blast

section \<open>How the writes change the value of a day\<close>

lemma find_update_first_value:
  assumes "\<And>a. Q (a\<lparr>a_value := v\<rparr>) = Q a"
  shows "map_option a_value (find Q (update_first P (\<lambda>a. a\<lparr>a_value := v\<rparr>) xs)) =
           map_option a_value (find Q xs) \<or>
         map_option a_value (find Q (update_first P (\<lambda>a. a\<lparr>a_value := v\<rparr>) xs)) = Some v \<and>
           (\<exists>a. P a \<and> Q a)"
proof (induction xs)
  case Nil
  then show ?case by simp
next
  case (Cons x xs)
  show ?case
  proof (cases "P x")
    case True
    then show ?thesis using assms[of x] by auto
  next
    case False
    with Cons show ?thesis by auto
  qed
qed

lemma day_value_set_value:
  "day_value (set_value w p d v s) e d' = day_value s e d' \<or>
   day_value (set_value w p d v s) e d' = Some v \<and> e = p \<and> d' = d"
  using find_update_first_value[of "\<lambda>a. a_employee_id a = e \<and> a_date a = d'" v
      "\<lambda>a. a_week_id a = w \<and> a_employee_id a = p \<and> a_date a = d" "db_assignments s"]
  by (auto simp: day_value_def set_value_def update_assignment_def)

lemma find_update_first_same_value:
  assumes "\<And>a. Q (f a) = Q a" and "\<And>a. a_value (f a) = a_value a"
  shows "map_option a_value (find Q (update_first P f xs)) = map_option a_value (find Q xs)"
  by (induction xs) (auto simp: assms)

lemma day_value_mark_dismissed:
  "day_value (mark_dismissed w p d s) e d' = day_value s e d'"
  unfolding day_value_def mark_dismissed_def update_assignment_def
  by (simp add: find_update_first_same_value)



lemma relaxes_refl: "relaxes s s"
  by (simp add: relaxes_def)

lemma relaxes_trans: "relaxes s s1 \<Longrightarrow> relaxes s1 s2 \<Longrightarrow> relaxes s s2"
  unfolding relaxes_def by metis

lemma relaxes_rest_rule:
  assumes "relaxes s s'" and "rest_rule s lo hi"
  shows "rest_rule s' lo hi"
  unfolding rest_rule_def
proof (intro allI impI)
  fix e d pv v
  assume a: "lo \<le> d \<and> d + 1 < hi \<and> day_value s' e d = Some pv \<and> day_value s' e (d + 1) = Some v"
  show "\<not> bad_pair pv v"
  proof (cases "is_placeholder pv \<or> is_placeholder v")
    case True
    then show ?thesis using not_bad_placeholder by blast
  next
    case False
    with assms(1) a have "day_value s e d = Some pv" "day_value s e (d + 1) = Some v"
      unfolding relaxes_def by (metis option.inject)+
    with assms(2) a show ?thesis unfolding rest_rule_def by blast
  qed
qed

lemma relaxes_fresh:
  assumes "relaxes s s'" and "fresh r s e d"
  shows "fresh r s' e d"
  unfolding fresh_def
proof (intro allI impI)
  fix x assume x: "day_value s' e d = Some x"
  show "\<not> in_dept r x"
  proof (cases "is_placeholder x")
    case True
    then show ?thesis using in_dept_active by blast
  next
    case False
    with assms(1) x have "day_value s e d = Some x"
      unfolding relaxes_def by (metis option.inject)
    with assms(2) show ?thesis by (simp add: fresh_def)
  qed
qed

lemma relaxes_set_placeholder:
  "is_placeholder v \<Longrightarrow> relaxes s (set_value w p d v s)"
  unfolding relaxes_def using day_value_set_value[of w p d v s] by blast

section \<open>The rest rule along a day of a pass\<close>



lemma rest_inv_mono:
  "rest_inv Fr lo hi s \<Longrightarrow> (\<And>r. Fr' r \<subseteq> Fr r) \<Longrightarrow> rest_inv Fr' lo hi s"
  unfolding rest_inv_def by blast

lemma rest_inv_assign:
  assumes inv: "rest_inv Fr lo hi s"
    and ro: "rest_ok s p d role label" and lo: "label_ok role label v" and dept: "is_dept role"
    and nf: "d \<notin> Fr role"
    and nx: "role = ''Breakfast Bar'' \<or> d + 1 \<in> Fr role \<or> hi \<le> d + 1"
  shows "rest_inv Fr lo hi (set_value w p d v s)"
proof -
  let ?s' = "set_value w p d v s"
  note dv = day_value_set_value[of w p d v s]
  from label_ok_in_dept[OF dept lo] have rv: "in_dept role v" .
  have rule: "rest_rule ?s' lo hi"
    unfolding rest_rule_def
  proof (intro allI impI)
    fix e x pv' v'
    assume a: "lo \<le> x \<and> x + 1 < hi \<and> day_value ?s' e x = Some pv' \<and>
               day_value ?s' e (x + 1) = Some v'"
    show "\<not> bad_pair pv' v'"
    proof (cases "day_value ?s' e (x + 1) = day_value s e (x + 1)")
      case old_next: True
      show ?thesis
      proof (cases "day_value ?s' e x = day_value s e x")
        case True
        with old_next a inv show ?thesis unfolding rest_inv_def rest_rule_def by metis
      next
        case False
        with dv[of e x] a have n: "e = p" "x = d" "pv' = v" by auto
        show ?thesis
        proof
          assume b: "bad_pair pv' v'"
          from bad_pair_next_in_dept[OF b[unfolded n(3)] rv] have c: "in_dept role v'" .
          from bad_pair_dept[OF b[unfolded n(3)]] in_dept_unique[OF rv]
          have "role = ''Front Desk'' \<or> role = ''Shuttle''" by blast
          then have "role \<noteq> ''Breakfast Bar''" by auto
          with nx a n have "d + 1 \<in> Fr role" by auto
          with inv have "fresh role s p (d + 1)" unfolding rest_inv_def by blast
          with old_next a n c show False by (simp add: fresh_def)
        qed
      qed
    next
      case False
      with dv[of e "x + 1"] a have n: "e = p" "x + 1 = d" "v' = v" by auto
      then have "x \<noteq> d" by simp
      with dv[of e x] have "day_value ?s' e x = day_value s e x" by auto
      with a n have "day_value s p (d - 1) = Some pv'"
        by (metis add_diff_cancel_right')
      from rest_ok_no_bad_pair[OF ro lo dept this] n show ?thesis by simp
    qed
  qed
  have fr: "fresh r ?s' e d'" if "d' \<in> Fr r" for r e d'
    unfolding fresh_def
  proof (intro allI impI)
    fix x assume x: "day_value ?s' e d' = Some x"
    from inv that have f: "fresh r s e d'" unfolding rest_inv_def by blast
    show "\<not> in_dept r x"
    proof (cases "day_value ?s' e d' = day_value s e d'")
      case True
      with f x show ?thesis by (simp add: fresh_def)
    next
      case False
      with dv[of e d'] x have n: "d' = d" "x = v" by auto
      show ?thesis
      proof
        assume "in_dept r x"
        with n rv have "r = role" using in_dept_unique by blast
        with that n nf show False by simp
      qed
    qed
  qed
  from rule fr show ?thesis unfolding rest_inv_def by blast
qed

lemma rest_inv_mark: "rest_inv Fr lo hi s \<Longrightarrow> rest_inv Fr lo hi (mark_dismissed w e d s)"
  by (simp add: rest_inv_def rest_rule_def fresh_def day_value_mark_dismissed)

lemma day_reach_rest_inv:
  assumes "day_reach ctx w role d gs gs'" and "is_dept role" and "d \<notin> Fr role"
    and "role = ''Breakfast Bar'' \<or> d + 1 \<in> Fr role \<or> hi \<le> d + 1"
    and "rest_inv Fr lo hi (gs_db gs)"
  shows "rest_inv Fr lo hi (gs_db gs')"
  using assms(1)
proof (induction rule: day_reach.induct)
  case start
  then show ?case by (rule assms(5))
next
  case (mark gs1 e)
  then show ?case by (simp add: rest_inv_mark)
next
  case (assign gs1 p label v lt)
  from rest_inv_assign[OF assign.IH assign.hyps(3,4) assms(2,3,4)]
  show ?case by simp
qed

section \<open>Well-formed weeks\<close>

lemma same_keys_refl: "same_keys s s"
  by (simp add: same_keys_def)

lemma same_keys_trans: "same_keys s s1 \<Longrightarrow> same_keys s1 s2 \<Longrightarrow> same_keys s s2"
  by (simp add: same_keys_def)

lemma rows_in_weeks_keys:
  "(\<forall>a \<in> set (db_assignments s). \<exists>wk \<in> set (db_weeks s).
         w_id wk = a_week_id a \<and> a_date a \<in> set (daterange (w_start_date wk) 7)) \<longleftrightarrow>
   (\<forall>k \<in> set (map akey (db_assignments s)). \<exists>wk \<in> set (db_weeks s).
         w_id wk = fst k \<and> snd (snd k) \<in> set (daterange (w_start_date wk) 7))"
  by (auto simp: akey_def)

lemma wf_weeks_same_keys: "same_keys s s' \<Longrightarrow> wf_weeks s \<Longrightarrow> wf_weeks s'"
  unfolding wf_weeks_def rows_in_weeks_keys by (simp add: same_keys_def)

lemma same_keys_update: "key_preserving f \<Longrightarrow> same_keys s (update_assignment w e d f s)"
  by (simp add: same_keys_def update_assignment_def map_akey_update_first)

lemma same_keys_set_value: "same_keys s (set_value w e d v s)"
  by (simp add: set_value_def same_keys_update)

lemma same_keys_mark: "same_keys s (mark_dismissed w e d s)"
  by (simp add: mark_dismissed_def same_keys_update)

lemma same_keys_reset: "same_keys s (reset_week w s)"
proof -
  have "map akey (map (\<lambda>a. if a_week_id a = w
                   then a\<lparr>a_value := ''Set'', a_dismissed_timeoff := False\<rparr> else a) xs)
        = map akey xs" for xs
    by (induction xs) (simp_all add: akey_def)
  then show ?thesis by (simp add: same_keys_def reset_week_def)
qed

lemma same_keys_sync:
  assumes "sync_timeoff_to_assignments w s = Inr s'"
  shows "same_keys s s'"
proof -
  have day: "same_keys t (sync_day w emp d t)" for t emp d
    by (simp add: sync_day_def same_keys_set_value same_keys_refl split: option.splits)
  have emp: "same_keys t (sync_emp w ds emp t)" for t ds emp
    unfolding sync_emp_def
    by (rule fold_induct[where P = "same_keys t"])
       (auto intro: same_keys_refl same_keys_trans day)
  have all: "same_keys t (fold (sync_emp w ds) emps t)" for t ds emps
    by (rule fold_induct[where P = "same_keys t"])
       (auto intro: same_keys_refl same_keys_trans emp)
  from assms show ?thesis
    by (auto simp: sync_timeoff_to_assignments_def all split: option.splits)
qed

lemma day_reach_same_keys:
  "day_reach ctx w role d gs gs' \<Longrightarrow> same_keys (gs_db gs) (gs_db gs')"
  by (induction rule: day_reach.induct)
     (auto intro: same_keys_refl same_keys_trans same_keys_mark same_keys_set_value)

lemma week_start_unique:
  assumes "wf_weeks s" and "w1 \<in> set (db_weeks s)" and "w2 \<in> set (db_weeks s)"
    and "d \<in> set (daterange (w_start_date w1) 7)" and "d \<in> set (daterange (w_start_date w2) 7)"
  shows "w1 = w2"
proof -
  from assms(1-3) have m: "(w_start_date w1 - w_start_date w2) mod 7 = 0"
    and dist: "distinct (map w_start_date (db_weeks s))"
    unfolding wf_weeks_def by blast+
  from assms(4,5) have "w_start_date w1 \<le> d" "d < w_start_date w1 + 7"
    "w_start_date w2 \<le> d" "d < w_start_date w2 + 7"
    by (auto simp: daterange_def)
  with m have "w_start_date w1 = w_start_date w2" by presburger
  with dist assms(2,3) show ?thesis
    by (meson distinct_map inj_onD)
qed

lemma row_week:
  assumes "wf_weeks s" and "wk \<in> set (db_weeks s)" and "a \<in> set (db_assignments s)"
    and "a_date a \<in> set (daterange (w_start_date wk) 7)"
  shows "a_week_id a = w_id wk"
proof -
  from assms(1,3) obtain wk' where w': "wk' \<in> set (db_weeks s)" "w_id wk' = a_week_id a"
    "a_date a \<in> set (daterange (w_start_date wk') 7)"
    unfolding wf_weeks_def by blast
  from week_start_unique[OF assms(1) w'(1) assms(2) w'(3) assms(4)] w'(2) show ?thesis by simp
qed

lemma row_unique:
  assumes "wf_weeks s" and "a \<in> set (db_assignments s)" and "b \<in> set (db_assignments s)"
    and "a_employee_id a = a_employee_id b" and "a_date a = a_date b"
  shows "a = b"
proof -
  from assms(1,2) obtain wk where w: "wk \<in> set (db_weeks s)" "w_id wk = a_week_id a"
    "a_date a \<in> set (daterange (w_start_date wk) 7)"
    unfolding wf_weeks_def by blast
  from row_week[OF assms(1) w(1) assms(3)] w(3) assms(5) have "a_week_id b = w_id wk" by simp
  with w(2) assms(4,5) have "akey a = akey b" by (simp add: akey_def)
  moreover from assms(1) have "distinct (map akey (db_assignments s))"
    unfolding wf_weeks_def by blast
  ultimately show ?thesis using assms(2,3) by (meson distinct_map inj_onD)
qed

lemma day_value_row:
  assumes "wf_weeks s" and "a \<in> set (db_assignments s)"
  shows "day_value s (a_employee_id a) (a_date a) = Some (a_value a)"
proof -
  let ?Q = "\<lambda>x. a_employee_id x = a_employee_id a \<and> a_date x = a_date a"
  from assms(2) have "find ?Q (db_assignments s) \<noteq> None" by (auto simp: find_None_iff)
  then obtain b where b: "find ?Q (db_assignments s) = Some b" by auto
  then have "b \<in> set (db_assignments s)" "?Q b"
    by (auto simp: find_Some_iff in_set_conv_nth)
  from row_unique[OF assms(1) this(1) assms(2)] this(2) have "b = a" by simp
  with b show ?thesis by (simp add: day_value_def)
qed

section \<open>Ensuring and resetting a week\<close>

lemma find_app:
  "find P (xs @ ys) = (case find P xs of None \<Rightarrow> find P ys | Some x \<Rightarrow> Some x)"
  by (induction xs) auto

lemma day_value_append:
  "day_value (s\<lparr>db_assignments := db_assignments s @ [a]\<rparr>) e d = day_value s e d \<or>
   day_value (s\<lparr>db_assignments := db_assignments s @ [a]\<rparr>) e d = Some (a_value a)"
  by (cases "find (\<lambda>x. a_employee_id x = e \<and> a_date x = d) (db_assignments s)")
     (auto simp: day_value_def find_app)

lemma relaxes_ensure_assignment: "relaxes s (ensure_assignment w e d s)"
proof (cases "get_assignment s w e d")
  case None
  let ?a = "\<lparr>a_week_id = w, a_employee_id = e, a_date = d, a_value = ''Set'',
              a_dismissed_timeoff = False\<rparr>"
  have "ensure_assignment w e d s = s\<lparr>db_assignments := db_assignments s @ [?a]\<rparr>"
    using None by (simp add: ensure_assignment_def)
  then show ?thesis
    unfolding relaxes_def using day_value_append[of s ?a]
    by (auto simp: is_placeholder_def)
next
  case (Some a)
  then show ?thesis by (simp add: ensure_assignment_def relaxes_refl)
qed

lemma wf_ensure_assignment:
  assumes "wf_weeks s" and "wk \<in> set (db_weeks s)"
    and "d \<in> set (daterange (w_start_date wk) 7)"
  shows "wf_weeks (ensure_assignment (w_id wk) e d s) \<and>
         db_weeks (ensure_assignment (w_id wk) e d s) = db_weeks s"
proof (cases "get_assignment s (w_id wk) e d")
  case None
  then have "(w_id wk, e, d) \<notin> set (map akey (db_assignments s))"
    using get_assignment_exists[of s "w_id wk" e d] by simp
  with assms None show ?thesis
    unfolding wf_weeks_def ensure_assignment_def
    by (auto simp: akey_def)
next
  case (Some a)
  with assms(1) show ?thesis by (simp add: ensure_assignment_def)
qed

lemma day_value_weeks_field: "day_value (s\<lparr>db_weeks := ws\<rparr>) e d = day_value s e d"
  by (simp add: day_value_def)

lemma ensure_week_props:
  assumes "wf_weeks s" and "ensure_week_and_assignments s start_d = (s1, wk)"
    and "\<forall>w \<in> set (db_weeks s). (start_d - w_start_date w) mod 7 = 0"
  shows "wf_weeks s1 \<and> wk \<in> set (db_weeks s1) \<and> w_start_date wk = start_d \<and> relaxes s s1"
proof -
  define s0 where "s0 = (case find (\<lambda>w. w_start_date w = start_d) (db_weeks s) of
       Some wk \<Rightarrow> s
     | None \<Rightarrow> s\<lparr>db_weeks := db_weeks s @ [\<lparr>w_id = new_week_id s, w_start_date = start_d\<rparr>]\<rparr>)"
  define wk0 where "wk0 = (case find (\<lambda>w. w_start_date w = start_d) (db_weeks s) of
       Some wk \<Rightarrow> wk
     | None \<Rightarrow> \<lparr>w_id = new_week_id s, w_start_date = start_d\<rparr>)"
  from assms(2) have wk: "wk = wk0"
    and s1: "s1 = fold (\<lambda>emp. fold (ensure_assignment (w_id wk0) (e_id emp)) (daterange start_d 7))
            (db_employees s0) s0"
    by (auto simp: ensure_week_and_assignments_def Let_def s0_def wk0_def split: option.splits)
  have base: "wf_weeks s0 \<and> wk0 \<in> set (db_weeks s0) \<and> w_start_date wk0 = start_d \<and> relaxes s s0"
  proof (cases "find (\<lambda>w. w_start_date w = start_d) (db_weeks s)")
    case None
    then have new: "\<forall>w \<in> set (db_weeks s). w_start_date w \<noteq> start_d"
      by (auto simp: find_None_iff)
    have al: "(w_start_date w - start_d) mod 7 = 0" if "w \<in> set (db_weeks s)" for w
    proof -
      from assms(3) that have "(start_d - w_start_date w) mod 7 = 0" by blast
      then show ?thesis by presburger
    qed
    have "wf_weeks s0"
      using assms(1,3) new al unfolding wf_weeks_def s0_def None option.case
      by (auto simp: image_iff)
    moreover have "relaxes s s0"
      unfolding s0_def None option.case relaxes_def by (simp add: day_value_weeks_field)
    ultimately show ?thesis by (simp add: s0_def wk0_def None)
  next
    case (Some w)
    then have "w \<in> set (db_weeks s)" "w_start_date w = start_d"
      by (auto simp: find_Some_iff in_set_conv_nth)
    with assms(1) Some show ?thesis by (simp add: s0_def wk0_def relaxes_refl)
  qed
  let ?P = "\<lambda>t. wf_weeks t \<and> db_weeks t = db_weeks s0 \<and> relaxes s t"
  have inner: "?P (fold (ensure_assignment (w_id wk0) e) (daterange start_d 7) t)" if "?P t" for t e
  proof (rule fold_induct[where P = ?P, OF that])
    fix x u assume x: "x \<in> set (daterange start_d 7)" and u: "?P u"
    from u base have m: "wk0 \<in> set (db_weeks u)" by simp
    from x base have r: "x \<in> set (daterange (w_start_date wk0) 7)" by simp
    from wf_ensure_assignment[OF _ m r, of e] u relaxes_ensure_assignment[of u "w_id wk0" e x]
    show "?P (ensure_assignment (w_id wk0) e x u)"
      by (auto intro: relaxes_trans)
  qed
  have "?P s1"
    unfolding s1
    by (rule fold_induct[where P = ?P]) (use base inner in auto)
  with base wk show ?thesis by simp
qed

lemma find_map_keys:
  assumes "\<And>x. Q (g x) = Q x"
  shows "find Q (map g xs) = map_option g (find Q xs)"
  by (induction xs) (auto simp: assms)

lemma day_value_reset:
  "day_value (reset_week w s) e d =
     map_option (\<lambda>a. if a_week_id a = w then ''Set'' else a_value a)
       (find (\<lambda>a. a_employee_id a = e \<and> a_date a = d) (db_assignments s))"
proof -
  let ?g = "\<lambda>a. if a_week_id a = w
                then a\<lparr>a_value := ''Set'', a_dismissed_timeoff := False\<rparr> else a"
  have "find (\<lambda>a. a_employee_id a = e \<and> a_date a = d) (map ?g (db_assignments s)) =
        map_option ?g (find (\<lambda>a. a_employee_id a = e \<and> a_date a = d) (db_assignments s))"
    by (rule find_map_keys) simp
  then show ?thesis
    by (simp add: day_value_def reset_week_def option.map_comp comp_def if_distrib cong: if_cong)
qed

lemma relaxes_reset: "relaxes s (reset_week w s)"
  unfolding relaxes_def
proof (intro allI)
  fix e d
  show "day_value (reset_week w s) e d = day_value s e d \<or>
        (\<exists>x. day_value (reset_week w s) e d = Some x \<and> is_placeholder x)"
  proof (cases "find (\<lambda>a. a_employee_id a = e \<and> a_date a = d) (db_assignments s)")
    case None
    have "day_value (reset_week w s) e d = None" unfolding day_value_reset None by simp
    moreover have "day_value s e d = None" unfolding day_value_def None by simp
    ultimately show ?thesis by simp
  next
    case (Some a)
    have r: "day_value (reset_week w s) e d = Some (if a_week_id a = w then ''Set'' else a_value a)"
      unfolding day_value_reset Some by simp
    have o: "day_value s e d = Some (a_value a)" unfolding day_value_def Some by simp
    show ?thesis
      by (cases "a_week_id a = w") (simp_all add: r o is_placeholder_def)
  qed
qed

lemma day_value_reset_week_day:
  assumes "wf_weeks s" and "wk \<in> set (db_weeks s)" and "d \<in> set (daterange (w_start_date wk) 7)"
  shows "day_value (reset_week (w_id wk) s) e d = None \<or>
         day_value (reset_week (w_id wk) s) e d = Some ''Set''"
proof (cases "find (\<lambda>a. a_employee_id a = e \<and> a_date a = d) (db_assignments s)")
  case None
  have "day_value (reset_week (w_id wk) s) e d = None" unfolding day_value_reset None by simp
  then show ?thesis by simp
next
  case (Some a)
  then have "a \<in> set (db_assignments s)" "a_date a = d"
    by (auto simp: find_Some_iff in_set_conv_nth)
  with row_week[OF assms(1,2), of a] assms(3) have "a_week_id a = w_id wk" by simp
  then have "day_value (reset_week (w_id wk) s) e d = Some ''Set''"
    unfolding day_value_reset Some by simp
  then show ?thesis by simp
qed

lemma relaxes_sync:
  assumes "sync_timeoff_to_assignments w s = Inr s'"
  shows "relaxes s s'"
proof -
  have ph: "is_placeholder TIME_OFF_LABEL" by (simp add: is_placeholder_def)
  have day: "relaxes t (sync_day w emp d t)" for t emp d
    by (simp add: sync_day_def relaxes_set_placeholder[OF ph] relaxes_refl split: option.splits)
  have emp: "relaxes t (sync_emp w ds emp t)" for t ds emp
    unfolding sync_emp_def
    by (rule fold_induct[where P = "relaxes t"])
       (auto intro: relaxes_refl relaxes_trans day)
  have all: "relaxes t (fold (sync_emp w ds) emps t)" for t ds emps
    by (rule fold_induct[where P = "relaxes t"])
       (auto intro: relaxes_refl relaxes_trans emp)
  from assms show ?thesis
    by (auto simp: sync_timeoff_to_assignments_def all split: option.splits)
qed

section \<open>The rest rule along a pass, a week and four weeks\<close>

lemma chain_week: "chain (start_d + 7) (daterange start_d 7)"
  by (simp add: daterange_def upt_conv_Cons)

lemma pass_rest_inv:
  assumes "fold_err step ds gs = Inr gs'"
    and "\<And>d g g'. step d g = Inr g' \<Longrightarrow> day_reach ctx w role d g g'"
    and "is_dept role" and "chain hi ds"
    and "rest_inv (Fr0(role := set ds)) lo hi (gs_db gs)"
  shows "rest_inv (Fr0(role := {})) lo hi (gs_db gs')"
  using assms(1,4,5)
proof (induction ds arbitrary: gs)
  case Nil
  then show ?case by simp
next
  case (Cons x rest)
  from Cons.prems(1) obtain g1 where
    st: "step x gs = Inr g1" and r: "fold_err step rest g1 = Inr gs'"
    by (auto split: sum.splits)
  from Cons.prems(2) have c: "x + 1 \<in> set rest \<or> hi \<le> x + 1" "x \<notin> set rest" "chain hi rest"
    by auto
  have "rest_inv (Fr0(role := set rest)) lo hi (gs_db gs)"
    by (rule rest_inv_mono[OF Cons.prems(3)]) auto
  from day_reach_rest_inv[OF assms(2)[OF st] assms(3) _ _ this] c
  have "rest_inv (Fr0(role := set rest)) lo hi (gs_db g1)" by simp
  from Cons.IH[OF r c(3) this] show ?case .
qed

lemma pass_rest_inv_bb:
  assumes "fold_err step ds gs = Inr gs'"
    and "\<And>d g g'. step d g = Inr g' \<Longrightarrow> day_reach ctx w ''Breakfast Bar'' d g g'"
    and "Fr ''Breakfast Bar'' = {}"
    and "rest_inv Fr lo hi (gs_db gs)"
  shows "rest_inv Fr lo hi (gs_db gs')"
proof (rule fold_err_induct[OF assms(1), where P = "\<lambda>g. rest_inv Fr lo hi (gs_db g)"])
  show "rest_inv Fr lo hi (gs_db gs)" by (rule assms(4))
next
  fix x t t'
  assume t: "rest_inv Fr lo hi (gs_db t)" and s: "step x t = Inr t'"
  have d: "is_dept ''Breakfast Bar''" by (simp add: is_dept_def)
  from day_reach_rest_inv[OF assms(2)[OF s] d _ _ t] assms(3)
  show "rest_inv Fr lo hi (gs_db t')" by simp
qed

lemma pass_same_keys:
  assumes "fold_err step ds gs = Inr gs'"
    and "\<And>d g g'. step d g = Inr g' \<Longrightarrow> day_reach ctx w role d g g'"
  shows "same_keys (gs_db gs) (gs_db gs')"
  by (rule fold_err_induct[OF assms(1), where P = "\<lambda>g. same_keys (gs_db gs) (gs_db g)"])
     (auto intro: same_keys_refl same_keys_trans day_reach_same_keys[OF assms(2)])

lemma gen_week_rest_rule:
  assumes "gen_week ctx start_d s = Inr s'" and "wf_weeks s"
    and "\<forall>w \<in> set (db_weeks s). (start_d - w_start_date w) mod 7 = 0"
    and "rest_rule s lo start_d"
  shows "wf_weeks s' \<and> rest_rule s' lo (start_d + 7)"
proof -
  obtain s1 wk where en: "ensure_week_and_assignments s start_d = (s1, wk)"
    by (cases "ensure_week_and_assignments s start_d")
  let ?w = "w_id wk"
  let ?s2 = "reset_week ?w s1"
  let ?gs0 = "init_gen_state ?s2"
  let ?W = "set (daterange start_d 7)"
  let ?hi = "start_d + 7"
  from assms(1) en obtain gs1 gs2 gs3 where
    p1: "fd_pass ctx wk ?gs0 = Inr gs1" and
    p2: "bb_pass ctx wk (reserved_fd_by_date ctx (gs_db gs1) wk) gs1 = Inr gs2" and
    p3: "sh_pass ctx wk (reserved_fd_by_date ctx (gs_db gs1) wk) gs2 = Inr gs3" and
    p4: "sync_timeoff_to_assignments ?w (gs_db gs3) = Inr s'"
    by (auto simp: gen_week_def Let_def split: sum.splits)
  from ensure_week_props[OF assms(2) en assms(3)]
  have wf1: "wf_weeks s1" and wkin: "wk \<in> set (db_weeks s1)"
    and wst: "w_start_date wk = start_d" and rx1: "relaxes s s1" by auto
  have g0: "gs_db ?gs0 = ?s2" by (simp add: init_gen_state_def)
  have rx2: "relaxes s ?s2" using rx1 relaxes_reset by (rule relaxes_trans)
  have wd: "day_value ?s2 e d = None \<or> day_value ?s2 e d = Some ''Set''" if "d \<in> ?W" for e d
    using day_value_reset_week_day[OF wf1 wkin, of d e] that wst by simp
  have set_ok: "\<not> bad_pair pv ''Set''" for pv
    using not_bad_placeholder[of "''Set''"] by (simp add: is_placeholder_def)
  have r0: "rest_rule ?s2 lo ?hi"
    unfolding rest_rule_def
  proof (intro allI impI)
    fix e d pv v
    assume a: "lo \<le> d \<and> d + 1 < ?hi \<and> day_value ?s2 e d = Some pv \<and>
               day_value ?s2 e (d + 1) = Some v"
    show "\<not> bad_pair pv v"
    proof (cases "d + 1 < start_d")
      case True
      from relaxes_rest_rule[OF rx2 assms(4)] a True show ?thesis
        unfolding rest_rule_def by blast
    next
      case False
      with a have "d + 1 \<in> ?W" by (auto simp: daterange_def image_iff intro!: bexI[of _ "nat (d + 1 - start_d)"])
      from wd[OF this, of e] a have "v = ''Set''" by simp
      with set_ok show ?thesis by simp
    qed
  qed
  have f0: "fresh r ?s2 e d" if "d \<in> ?W" for r e d
    using wd[OF that, of e] in_dept_active[of r "''Set''"]
    by (auto simp: fresh_def is_placeholder_def)
  let ?F0 = "\<lambda>r :: string. ?W"
  have i0: "rest_inv (?F0(''Front Desk'' := ?W)) lo ?hi (gs_db ?gs0)"
    unfolding g0 rest_inv_def using r0 f0 by simp
  have d1: "is_dept ''Front Desk''" and d3: "is_dept ''Shuttle''" by (simp_all add: is_dept_def)
  have i1: "rest_inv (?F0(''Front Desk'' := {})) lo ?hi (gs_db gs1)"
    by (rule pass_rest_inv[OF p1[unfolded fd_pass_def wst] fd_day_reach d1 chain_week i0])
  let ?F1 = "?F0(''Front Desk'' := {}, ''Breakfast Bar'' := {})"
  have i1': "rest_inv ?F1 lo ?hi (gs_db gs1)"
    by (rule rest_inv_mono[OF i1]) auto
  have bb_reach: "day_reach ctx ?w ''Breakfast Bar'' d g g'"
    if "dept_day ctx ?w (reserved_fd_by_date ctx (gs_db gs1) wk) ''Breakfast Bar''
          (bb_emp_ids ctx) BB_PASS_SHIFTS d g = Inr g'" for d g g'
    using that by (rule bb_day_reach)
  have bb_none: "?F1 ''Breakfast Bar'' = {}" by simp
  have i2: "rest_inv ?F1 lo ?hi (gs_db gs2)"
    using p2[unfolded bb_pass_def dept_pass_def] bb_reach bb_none i1'
    by (rule pass_rest_inv_bb)
  have i2': "rest_inv (?F1(''Shuttle'' := ?W)) lo ?hi (gs_db gs2)"
    by (rule rest_inv_mono[OF i2]) auto
  have i3: "rest_inv (?F1(''Shuttle'' := {})) lo ?hi (gs_db gs3)"
    by (rule pass_rest_inv[OF p3[unfolded sh_pass_def dept_pass_def wst] sh_day_reach d3
          chain_week i2'])
  then have r3: "rest_rule (gs_db gs3) lo ?hi" by (simp add: rest_inv_def)
  from relaxes_rest_rule[OF relaxes_sync[OF p4] r3] have rule: "rest_rule s' lo ?hi" .
  have k: "same_keys s1 s'"
  proof -
    note [trans] = same_keys_trans
    have "same_keys s1 (gs_db ?gs0)" unfolding g0 by (rule same_keys_reset)
    also have "same_keys (gs_db ?gs0) (gs_db gs1)"
      by (rule pass_same_keys[OF p1[unfolded fd_pass_def] fd_day_reach])
    also have "same_keys (gs_db gs1) (gs_db gs2)"
      by (rule pass_same_keys[OF p2[unfolded bb_pass_def dept_pass_def] bb_day_reach])
    also have "same_keys (gs_db gs2) (gs_db gs3)"
      by (rule pass_same_keys[OF p3[unfolded sh_pass_def dept_pass_def] sh_day_reach])
    also have "same_keys (gs_db gs3) s'" by (rule same_keys_sync[OF p4])
    finally show ?thesis .
  qed
  from wf_weeks_same_keys[OF k wf1] rule show ?thesis by simp
qed

lemma wf_weeks_aligned:
  assumes "wf_weeks s" and "bw \<in> set (db_weeks s)"
  shows "\<forall>w \<in> set (db_weeks s). (w_start_date bw + 7 * k - w_start_date w) mod 7 = 0"
proof
  fix w assume "w \<in> set (db_weeks s)"
  with assms have "(w_start_date bw - w_start_date w) mod 7 = 0" unfolding wf_weeks_def by blast
  then show "(w_start_date bw + 7 * k - w_start_date w) mod 7 = 0" by presburger
qed

lemma gen_week_keeps_week:
  assumes "gen_week ctx start_d s = Inr s'" and "bw \<in> set (db_weeks s)"
  shows "bw \<in> set (db_weeks s')"
  using evolves_gen_week[OF assms(1)] assms(2)
  by (auto simp: evolves_def dest: set_mono_prefix)

lemma generate_rest_rule:
  assumes "generate_4_week_schedule set_order start_week_id s = Inr s'"
    and "get_week s start_week_id = Some base_week"
    and "wf_weeks s"
  shows "wf_weeks s' \<and> rest_rule s' (w_start_date base_week) (w_start_date base_week + 28)"
proof -
  let ?b = "w_start_date base_week"
  let ?ctx = "build_ctx set_order s"
  from assms(1,2) obtain s1 s2 s3 where
    g0: "gen_week ?ctx (?b + 7 * 0) s = Inr s1" and
    g1: "gen_week ?ctx (?b + 7 * 1) s1 = Inr s2" and
    g2: "gen_week ?ctx (?b + 7 * 2) s2 = Inr s3" and
    g3: "gen_week ?ctx (?b + 7 * 3) s3 = Inr s'"
    by (auto simp: generate_4_week_schedule_def generate_weeks_def split: sum.splits)
  from assms(2) have b0: "base_week \<in> set (db_weeks s)"
    by (auto simp: get_week_def find_Some_iff in_set_conv_nth)
  have r0: "rest_rule s ?b (?b + 7 * 0)" by (auto simp: rest_rule_def)
  from gen_week_rest_rule[OF g0 assms(3) wf_weeks_aligned[OF assms(3) b0] r0]
  have w1: "wf_weeks s1" and r1: "rest_rule s1 ?b (?b + 7 * 1)"
    by (simp_all add: ac_simps)
  note b1 = gen_week_keeps_week[OF g0 b0]
  from gen_week_rest_rule[OF g1 w1 wf_weeks_aligned[OF w1 b1] r1]
  have w2: "wf_weeks s2" and r2: "rest_rule s2 ?b (?b + 7 * 2)"
    by (simp_all add: ac_simps)
  note b2 = gen_week_keeps_week[OF g1 b1]
  from gen_week_rest_rule[OF g2 w2 wf_weeks_aligned[OF w2 b2] r2]
  have w3: "wf_weeks s3" and r3: "rest_rule s3 ?b (?b + 7 * 3)"
    by (simp_all add: ac_simps)
  note b3 = gen_week_keeps_week[OF g2 b2]
  from gen_week_rest_rule[OF g3 w3 wf_weeks_aligned[OF w3 b3] r3]
  show ?thesis by (simp add: ac_simps)
qed

section \<open>The generator on the one-worker database\<close>

lemma demo_generated: "generate_4_week_schedule remdups 1 db_demo = Inr db_demo_out"
  by code_simp

lemma demo_week: "get_week db_demo 1 = Some \<lparr>w_id = 1, w_start_date = 739512\<rparr>"
  by (simp add: get_week_def db_demo_def)

lemma demo_synced: "sync_timeoff_to_assignments 1 db_demo = Inr db_demo"
  by code_simp

section \<open>Claims\<close>

subsection \<open>C9: the Conflict Detector never reports anybody\<close>

text \<open>
  Claim C9. Outside the shared placeholders "Set" and "TIME OFF" the label sets of the three
  departments are pairwise disjoint; hence a value that is neither placeholder lies in the
  label set of at most one department, and \<open>double_booked_snapshot\<close> returns the empty
  report for every database state and every week id.
\<close>

theorem C9_conflict_report_empty:
  "set FRONT_DESK_SHIFTS \<inter> set SHUTTLE_SHIFTS = {''Set'', TIME_OFF_LABEL} \<and>
   set FRONT_DESK_SHIFTS \<inter> set BREAKFAST_SHIFTS = {''Set'', TIME_OFF_LABEL} \<and>
   set SHUTTLE_SHIFTS \<inter> set BREAKFAST_SHIFTS = {''Set'', TIME_OFF_LABEL} \<and>
   (\<not> is_placeholder v \<longrightarrow>
      length (filter (\<lambda>n. v \<in> set (section_shifts n))
                [''Breakfast Bar'', ''Front Desk'', ''Shuttle'']) \<le> 1) \<and>
   double_booked_snapshot s week_id = []"
proof -
  have "length (filter (\<lambda>n. v \<in> set (section_shifts n))
                [''Breakfast Bar'', ''Front Desk'', ''Shuttle'']) \<le> 1"
    if "\<not> is_placeholder v"
    by (rule filter_distinct_le_one) (use that section_shifts_unique in auto)
  moreover have "double_booked_snapshot s week_id = []"
    by (simp add: double_booked_snapshot_def double_booked_fold_empty split: option.splits)
  ultimately show ?thesis
    using label_sets_disjoint by blast
qed

theorem C9_conflict_report_empty_witness:
  "\<not> is_placeholder (''AM (3:30AM'' @ en_dash @ ''11:30AM)'') \<and>
   length (filter (\<lambda>n. ''AM (3:30AM'' @ en_dash @ ''11:30AM)'' \<in> set (section_shifts n))
                [''Breakfast Bar'', ''Front Desk'', ''Shuttle'']) \<le> 1 \<and>
   multi_emp_ids db_c9 = [1] \<and>
   double_booked_snapshot db_c9 1 = []"
proof -
  have 1: "\<not> is_placeholder (''AM (3:30AM'' @ en_dash @ ''11:30AM)'')"
    by (simp add: is_placeholder_def TIME_OFF_LABEL_def)
  have 2: "multi_emp_ids db_c9 = [1]"
    by (simp add: multi_emp_ids_def emp_sections_keys_def emp_sections_def sec_by_id_def
        dict_of_def db_c9_def)
  from 1 2 C9_conflict_report_empty [of "''AM (3:30AM'' @ en_dash @ ''11:30AM)''" db_c9 1]
  show ?thesis by blast
qed

subsection \<open>C3: seniority in the Candidate Ranker\<close>

lemma key_fn_c3:
  "key_fn (build_ctx remdups db_c3) (init_gen_state db_c3) ''Front Desk'' ''AM'' 1 = Inr (1, 1, 1, - 1, 0)"
  "key_fn (build_ctx remdups db_c3) (init_gen_state db_c3) ''Front Desk'' ''AM'' 2 = Inr (1, 1, 1, - 2, 0)"
  by (simp_all add: key_fn_def build_ctx_def dict_of_def db_c3_def mk_emp_def emp_info_of_def
      init_gen_state_def)

text \<open>
  Claim C3 as stated fails: of two candidates that tie on the first three criteria, the
  one with seniority 1 is ranked after the one with seniority 2.
\<close>

theorem C3_counterexample:
  "key_fn (build_ctx remdups db_c3) (init_gen_state db_c3) ''Front Desk'' ''AM'' 1 = Inr (1, 1, 1, - 1, 0) \<and>
   key_fn (build_ctx remdups db_c3) (init_gen_state db_c3) ''Front Desk'' ''AM'' 2 = Inr (1, 1, 1, - 2, 0) \<and>
   map e_seniority (db_employees db_c3) = [Some 1, Some 2] \<and>
   rank_candidates (build_ctx remdups db_c3) (init_gen_state db_c3) ''Front Desk'' ''AM'' [1, 2]
     = Inr [2, 1] \<and>
   \<not> precedes (1::int) 2 [2, 1]"
proof -
  have a: "map e_seniority (db_employees db_c3) = [Some 1, Some 2]"
    by (simp add: db_c3_def mk_emp_def)
  have r: "rank_candidates (build_ctx remdups db_c3) (init_gen_state db_c3) ''Front Desk'' ''AM'' [1, 2]
     = Inr [2, 1]"
    by (simp add: key_fn_c3 rank_candidates_def)
  have p: "\<not> precedes (1::int) 2 [2, 1]"
    by (simp add: precedes_def)
  from key_fn_c3 a r p show ?thesis by (intro conjI)
qed

text \<open>
  Claim C3, amended. When two candidates of a slot tie on the first three components of the
  ranking key, the one with the higher numeric seniority value is ranked before the other.
  A worker without a seniority value has the value 0, so such a worker is ranked after
  every worker with a positive value.
\<close>

theorem C3_ranker_seniority:
  assumes "rank_candidates ctx gs role label filtered = Inr ranked"
    and "a \<in> set filtered" and "b \<in> set filtered"
    and "emp_info ctx a = Some ia" and "emp_info ctx b = Some ib"
    and "key_fn ctx gs role label a = Inr (k1, k2, k3, sa, ca)"
    and "key_fn ctx gs role label b = Inr (k1, k2, k3, sb, cb)"
    and "ei_seniority ia > ei_seniority ib"
  shows "precedes a b ranked \<and>
         ei_seniority (emp_info_of s e) = (case e_seniority e of None \<Rightarrow> 0 | Some n \<Rightarrow> n)"
proof -
  from assms(4,6) have sa: "sa = - ei_seniority ia"
    by (auto simp: key_fn_def Let_def)
  from assms(5,7) have sb: "sb = - ei_seniority ib"
    by (auto simp: key_fn_def Let_def)
  from sa sb assms(8) have "(k1, k2, k3, sa, ca) < (k1, k2, k3, sb, cb)" by simp
  from rank_candidates_precedes[OF assms(1,2,3,6,7) this] show ?thesis
    by (simp add: emp_info_of_def)
qed

theorem C3_ranker_seniority_witness:
  "precedes (2::int) 1 [2, 1] \<and>
   rank_candidates (build_ctx remdups db_c3) (init_gen_state db_c3) ''Front Desk'' ''AM'' [1, 2]
     = Inr [2, 1] \<and>
   ei_seniority (emp_info_of db_c3 (mk_emp 3 ''Eve'' 1 None)) = 0"
proof -
  have r: "rank_candidates (build_ctx remdups db_c3) (init_gen_state db_c3) ''Front Desk'' ''AM'' [1, 2]
     = Inr [2, 1]"
    by (simp add: key_fn_c3 rank_candidates_def)
  have i2: "emp_info (build_ctx remdups db_c3) 2 = Some (emp_info_of db_c3 (mk_emp 2 ''Bob'' 1 (Some 2)))"
    and i1: "emp_info (build_ctx remdups db_c3) 1 = Some (emp_info_of db_c3 (mk_emp 1 ''Ann'' 1 (Some 1)))"
    by (simp_all add: build_ctx_def dict_of_def db_c3_def mk_emp_def)
  have gt: "ei_seniority (emp_info_of db_c3 (mk_emp 2 ''Bob'' 1 (Some 2)))
            > ei_seniority (emp_info_of db_c3 (mk_emp 1 ''Ann'' 1 (Some 1)))"
    by (simp add: emp_info_of_def mk_emp_def)
  from C3_ranker_seniority[OF r _ _ i2 i1 key_fn_c3(2) key_fn_c3(1) gt,
      of db_c3 "mk_emp 3 ''Eve'' 1 None"] r
  show ?thesis by (simp add: mk_emp_def)
qed

subsection \<open>C5: stagger labels\<close>

lemma sort_key_two:
  "sort_key f [a, b] = (if f a \<le> f b then [a, b] else [b, a])"
  by simp

lemma fd_assign_pick_snd:
  "snd (fd_assign_pick ctx w d variant opts picks (i, eid) (pool, gs)) =
     (case get_assignment (gs_db gs) w eid d of
        None \<Rightarrow> gs
      | Some a \<Rightarrow>
          gs\<lparr>gs_db := set_value w eid d (stagger_label ctx opts picks i eid) (gs_db gs),
             assigned_counts := (assigned_counts gs)(eid := assigned_counts gs eid + 1),
             last_token_per_role :=
               (last_token_per_role gs)((eid, ''Front Desk'') :=
                  Some (pref_token ''Front Desk'' variant))\<rparr>)"
  by (simp add: fd_assign_pick_def)

lemma get_assignment_set_value_other:
  "e' \<noteq> e \<Longrightarrow> get_assignment (set_value w e d v s) w' e' d' = get_assignment s w' e' d'"
  by (simp add: set_value_def get_assignment_update)

lemma place_pair:
  assumes "get_assignment (gs_db gs) w x d \<noteq> None" "get_assignment (gs_db gs) w y d \<noteq> None"
    and "x \<noteq> y" and "sort_key (seniority_rank ctx) picks0 = [x, y]"
  shows "value_on (gs_db (snd (fd_place_picks ctx w d variant [early, late] picks0 (pool, gs)))) w x d
           = Some early \<and>
         value_on (gs_db (snd (fd_place_picks ctx w d variant [early, late] picks0 (pool, gs)))) w y d
           = Some late"
proof -
  from assms(1) obtain ax where ax: "get_assignment (gs_db gs) w x d = Some ax" by auto
  from assms(2) obtain ay where ay: "get_assignment (gs_db gs) w y d = Some ay" by auto
  obtain pool1 gs1 where st1:
    "fd_assign_pick ctx w d variant [early, late] [x, y] (0, x) (pool, gs) = (pool1, gs1)"
    by (cases "fd_assign_pick ctx w d variant [early, late] [x, y] (0, x) (pool, gs)")
  from fd_assign_pick_snd[of ctx w d variant "[early, late]" "[x, y]" 0 x pool gs] st1 ax
  have db1: "gs_db gs1 = set_value w x d early (gs_db gs)"
    by (simp add: stagger_label_def)
  with ay assms(3) have ay1: "get_assignment (gs_db gs1) w y d = Some ay"
    by (simp add: get_assignment_set_value_other)
  from fd_assign_pick_snd[of ctx w d variant "[early, late]" "[x, y]" 1 y pool1 gs1] ay1
  have db2: "gs_db (snd (fd_assign_pick ctx w d variant [early, late] [x, y] (1, y) (pool1, gs1)))
             = set_value w y d late (gs_db gs1)"
    by (simp add: stagger_label_def)
  have "fd_place_picks ctx w d variant [early, late] picks0 (pool, gs) =
        fd_assign_pick ctx w d variant [early, late] [x, y] (1, y) (pool1, gs1)"
    using assms(4) st1 by (simp add: fd_place_picks_def)
  moreover have "value_on (gs_db gs) w x d = Some (a_value ax)"
    "value_on (gs_db gs) w y d = Some (a_value ay)"
    using ax ay by (simp_all add: value_on_def)
  ultimately show ?thesis using db2 db1 assms(3)
    by (simp add: value_on_set_value)
qed

lemma place_single_ryan:
  assumes "get_assignment (gs_db gs) w x d \<noteq> None" and "emp_name_get ctx x = ''Ryan''"
  shows "value_on (gs_db (snd (fd_place_picks ctx w d variant [early, late] [x] (pool, gs)))) w x d
           = Some late"
proof -
  from assms(1) obtain ax where ax: "get_assignment (gs_db gs) w x d = Some ax" by auto
  have "fd_place_picks ctx w d variant [early, late] [x] (pool, gs) =
        fd_assign_pick ctx w d variant [early, late] [x] (0, x) (pool, gs)"
    by (simp add: fd_place_picks_def)
  moreover have "value_on (gs_db gs) w x d = Some (a_value ax)"
    using ax by (simp add: value_on_def)
  ultimately show ?thesis
    using fd_assign_pick_snd[of ctx w d variant "[early, late]" "[x]" 0 x pool gs] ax assms(2)
    by (simp add: stagger_label_def value_on_set_value)
qed

lemma seniority_rank_le: "emp_name_get ctx x \<noteq> ''Ryan'' \<Longrightarrow> seniority_rank ctx x \<le> 9999"
proof -
  have "index_of n SENIORITY_ORDER = Some i \<Longrightarrow> i < 12" for n i
    by (auto simp: SENIORITY_ORDER_def split: if_splits)
  then show "emp_name_get ctx x \<noteq> ''Ryan'' \<Longrightarrow> seniority_rank ctx x \<le> 9999"
    by (fastforce simp: seniority_rank_def Let_def split: option.splits)
qed

lemma seniority_rank_ryan: "emp_name_get ctx x = ''Ryan'' \<Longrightarrow> seniority_rank ctx x = 10000"
  by (simp add: seniority_rank_def)

lemma fold_err_append:
  "fold_err f (xs @ ys) s = (case fold_err f xs s of Inl err \<Rightarrow> Inl err | Inr t \<Rightarrow> fold_err f ys t)"
  by (induction xs arbitrary: s) (auto split: sum.splits)

lemma day_reach_keeps_value:
  "day_reach ctx w role d' gs gs' \<Longrightarrow> value_on (gs_db gs) w e d = Some v \<Longrightarrow> v \<noteq> ''Set'' \<Longrightarrow>
   value_on (gs_db gs') w e d = Some v"
  by (induction rule: day_reach.induct)
     (auto simp: value_on_mark_dismissed value_on_set_value)

lemma fd_variant_fold_reach:
  assumes "fold_err (fd_variant_step ctx w d) vs (pool, gs) = Inr (pool', gs')"
    and "set vs \<subseteq> set FD_VARIANTS" and "set pool \<subseteq> set (fd_emp_ids ctx)"
  shows "day_reach ctx w ''Front Desk'' d gs gs' \<and> set pool' \<subseteq> set pool"
proof -
  have "day_reach ctx w ''Front Desk'' d gs (snd (pool', gs')) \<and>
        set (fst (pool', gs')) \<subseteq> set pool"
  proof (rule fold_err_induct[OF assms(1),
        where P = "\<lambda>t. day_reach ctx w ''Front Desk'' d gs (snd t) \<and> set (fst t) \<subseteq> set pool"])
    show "day_reach ctx w ''Front Desk'' d gs (snd (pool, gs)) \<and> set (fst (pool, gs)) \<subseteq> set pool"
      by (simp add: day_reach.start)
  next
    fix x t t'
    assume x: "x \<in> set vs"
      and t: "day_reach ctx w ''Front Desk'' d gs (snd t) \<and> set (fst t) \<subseteq> set pool"
      and s: "fd_variant_step ctx w d x t = Inr t'"
    obtain pool1 g1 where t1: "t = (pool1, g1)" by (cases t)
    obtain pool2 g2 where t2: "t' = (pool2, g2)" by (cases t')
    from x assms(2) have xv: "x \<in> set FD_VARIANTS" by auto
    from t t1 assms(3) have "set pool1 \<subseteq> set (fd_emp_ids ctx)" by auto
    from fd_variant_step_reach[OF s[unfolded t1 t2] xv this]
    have "day_reach ctx w ''Front Desk'' d g1 g2" "set pool2 \<subseteq> set pool1" by auto
    with t t1 t2 day_reach_trans show
      "day_reach ctx w ''Front Desk'' d gs (snd t') \<and> set (fst t') \<subseteq> set pool"
      by auto
  qed
  then show ?thesis by simp
qed

lemma fd_days_keep_value:
  assumes "fold_err (fd_day ctx w) ds gs = Inr gs'"
    and "value_on (gs_db gs) w e d = Some v" and "v \<noteq> ''Set''"
  shows "value_on (gs_db gs') w e d = Some v"
  by (rule fold_err_induct[OF assms(1), where P = "\<lambda>t. value_on (gs_db t) w e d = Some v"])
     (auto simp: assms(2) intro: day_reach_keeps_value[OF fd_day_reach _ assms(3)])

lemma fd_variants_two:
  "(variant, opts) \<in> set FD_VARIANTS \<Longrightarrow>
   \<exists>early late. opts = [early, late] \<and> early \<noteq> ''Set'' \<and> late \<noteq> ''Set''"
  by (auto simp: FD_VARIANTS_def)

lemma fd_variant_step_places:
  assumes "fd_selected ctx w d variant pool gs = Inr picks0"
    and "fd_variant_step ctx w d (variant, [early, late]) (pool, gs) = Inr (pool', gs')"
  shows "((picks0 = [a, b] \<or> picks0 = [b, a]) \<and> seniority_rank ctx a < seniority_rank ctx b \<longrightarrow>
            value_on (gs_db gs') w a d = Some early \<and> value_on (gs_db gs') w b d = Some late) \<and>
         (picks0 = [b] \<and> emp_name_get ctx b = ''Ryan'' \<longrightarrow>
            value_on (gs_db gs') w b d = Some late)"
proof -
  from assms(1) obtain cand gs1 where
    c: "fold_err (fd_cand_step ctx w d variant) pool ([], gs) = Inr (cand, gs1)"
    by (auto simp: fd_selected_def split: sum.splits)
  show ?thesis
  proof (cases "cand = []")
    case True
    with assms(1) c have "picks0 = []" by (simp add: fd_selected_def)
    then show ?thesis by simp
  next
    case False
    with assms(1) c have pk: "fd_picks ctx gs1 d variant cand 2 [] = Inr picks0"
      by (simp add: fd_selected_def)
    with assms(2) c False have
      pl: "fd_place_picks ctx w d variant [early, late] picks0 (pool, gs1) = (pool', gs')"
      by (simp add: fd_variant_step_def)
    from fd_scan_reach[OF c, of "''Front Desk''"]
    have sv: "same_values (gs_db gs) (gs_db gs1)"
      and cs: "\<forall>p \<in> set cand. value_on (gs_db gs) w p d = Some ''Set''"
      by auto
    from fd_picks_props[OF pk] have pc: "\<forall>p \<in> set picks0. p \<in> set cand" by auto
    have rows: "get_assignment (gs_db gs1) w p d \<noteq> None" if "p \<in> set picks0" for p
    proof -
      from that pc cs have "value_on (gs_db gs) w p d = Some ''Set''" by auto
      with same_values_value_on[OF sv, of w p d] show ?thesis by (auto simp: value_on_def)
    qed
    have pair: "value_on (gs_db gs') w a d = Some early \<and> value_on (gs_db gs') w b d = Some late"
      if p: "picks0 = [a, b] \<or> picks0 = [b, a]" and lt: "seniority_rank ctx a < seniority_rank ctx b"
    proof -
      from p lt have sk: "sort_key (seniority_rank ctx) picks0 = [a, b]"
        by (auto simp: sort_key_two)
      from p have "a \<in> set picks0" "b \<in> set picks0" by auto
      then have ra: "get_assignment (gs_db gs1) w a d \<noteq> None"
        and rb: "get_assignment (gs_db gs1) w b d \<noteq> None" using rows by auto
      from lt have ne: "a \<noteq> b" by auto
      from place_pair[OF ra rb ne sk, of variant early late pool] pl show ?thesis by simp
    qed
    have single: "value_on (gs_db gs') w b d = Some late"
      if p: "picks0 = [b]" and r: "emp_name_get ctx b = ''Ryan''"
    proof -
      from p rows have rb: "get_assignment (gs_db gs1) w b d \<noteq> None" by auto
      from place_single_ryan[OF rb r, of variant early late pool] pl p show ?thesis by simp
    qed
    from pair single show ?thesis by blast
  qed
qed

text \<open>
  Claim C5. Take the Front Desk pass of a week, a day \<open>d\<close> of the week and a variant with
  its two stagger labels \<open>opts\<close>; let \<open>(pool, gs)\<close> be the state of the pass when the
  turn of the variant comes on that day, and \<open>picks0\<close> the workers the variant step
  selects there. At the end of the pass: when two workers are selected, in either order,
  the one with the smaller \<open>_seniority_rank\<close> holds the earlier stagger label on \<open>d\<close> and
  the other the later one; the worker named Ryan holds the later label next to any other
  worker, and also when selected alone.
\<close>

theorem C5_stagger_placement:
  assumes "daterange (w_start_date wk) 7 = days_before @ d # days_after"
    and "fold_err (fd_day ctx (w_id wk)) days_before gs_start = Inr gs_day"
    and "FD_VARIANTS = before @ (variant, opts) # after"
    and "fold_err (fd_variant_step ctx (w_id wk) d) before (fd_emp_ids ctx, gs_day) = Inr (pool, gs)"
    and "fd_selected ctx (w_id wk) d variant pool gs = Inr picks0"
    and "fd_pass ctx wk gs_start = Inr gs_end"
  shows "\<exists>early late. opts = [early, late] \<and>
     ((picks0 = [a, b] \<or> picks0 = [b, a]) \<and> seniority_rank ctx a < seniority_rank ctx b \<longrightarrow>
        value_on (gs_db gs_end) (w_id wk) a d = Some early \<and>
        value_on (gs_db gs_end) (w_id wk) b d = Some late) \<and>
     ((picks0 = [a, b] \<or> picks0 = [b, a]) \<and> emp_name_get ctx b = ''Ryan'' \<and>
        emp_name_get ctx a \<noteq> ''Ryan'' \<longrightarrow>
        value_on (gs_db gs_end) (w_id wk) b d = Some late) \<and>
     (picks0 = [b] \<and> emp_name_get ctx b = ''Ryan'' \<longrightarrow>
        value_on (gs_db gs_end) (w_id wk) b d = Some late)"
proof -
  let ?w = "w_id wk"
  have mem: "(variant, opts) \<in> set FD_VARIANTS" unfolding assms(3) by simp
  from fd_variants_two[OF mem] obtain early late where
    opts: "opts = [early, late]" and ne: "early \<noteq> ''Set''" and nl: "late \<noteq> ''Set''" by blast
  from assms(6,1,2) obtain gs_next where
    day: "fd_day ctx ?w d gs_day = Inr gs_next" and
    later: "fold_err (fd_day ctx ?w) days_after gs_next = Inr gs_end"
    by (auto simp: fd_pass_def fold_err_append split: sum.splits)
  from day obtain pool2 where
    "fold_err (fd_variant_step ctx ?w d) FD_VARIANTS (fd_emp_ids ctx, gs_day) = Inr (pool2, gs_next)"
    by (auto simp: fd_day_def split: sum.splits)
  then have "fold_err (fd_variant_step ctx ?w d) (before @ (variant, opts) # after)
               (fd_emp_ids ctx, gs_day) = Inr (pool2, gs_next)"
    unfolding assms(3) .
  with assms(4) obtain pool1 gs1 where
    step: "fd_variant_step ctx ?w d (variant, opts) (pool, gs) = Inr (pool1, gs1)" and
    rest: "fold_err (fd_variant_step ctx ?w d) after (pool1, gs1) = Inr (pool2, gs_next)"
    by (auto simp: fold_err_append split: sum.splits)
  have sb: "set before \<subseteq> set FD_VARIANTS" and sa: "set after \<subseteq> set FD_VARIANTS"
    unfolding assms(3) by auto
  from fd_variant_fold_reach[OF assms(4) sb] have p0: "set pool \<subseteq> set (fd_emp_ids ctx)" by simp
  from fd_variant_step_reach[OF step mem p0] have p1: "set pool1 \<subseteq> set (fd_emp_ids ctx)"
    using p0 by auto
  from fd_variant_fold_reach[OF rest sa p1]
  have reach: "day_reach ctx ?w ''Front Desk'' d gs1 gs_next" by simp
  have keep: "value_on (gs_db gs_end) ?w e d = Some v"
    if "value_on (gs_db gs1) ?w e d = Some v" "v \<noteq> ''Set''" for e v
    using fd_days_keep_value[OF later day_reach_keeps_value[OF reach that] that(2)] .
  note places = fd_variant_step_places[OF assms(5) step[unfolded opts]]
  have pair: "value_on (gs_db gs_end) ?w a d = Some early \<and>
              value_on (gs_db gs_end) ?w b d = Some late"
    if "picks0 = [a, b] \<or> picks0 = [b, a]" "seniority_rank ctx a < seniority_rank ctx b"
    using places[of a b] that keep[OF _ ne] keep[OF _ nl] by blast
  moreover have "seniority_rank ctx a < seniority_rank ctx b"
    if "emp_name_get ctx b = ''Ryan''" "emp_name_get ctx a \<noteq> ''Ryan''"
    using seniority_rank_le[OF that(2)] seniority_rank_ryan[OF that(1)] by simp
  moreover have "value_on (gs_db gs_end) ?w b d = Some late"
    if "picks0 = [b]" "emp_name_get ctx b = ''Ryan''"
    using places[of a b] that keep[OF _ nl] by blast
  ultimately show ?thesis using opts by blast
qed

lemma c5_turn1:
  "(case fold_err (fd_variant_step (build_ctx remdups db_c5) 1 739512) [hd FD_VARIANTS]
           (fd_emp_ids (build_ctx remdups db_c5), init_gen_state db_c5) of
      Inl err \<Rightarrow> False
    | Inr (pool, gs) \<Rightarrow>
        fd_selected (build_ctx remdups db_c5) 1 739512 ''PM'' pool gs = Inr [1, 2]) \<and>
   \<not> isl (fd_pass (build_ctx remdups db_c5) wk1 (init_gen_state db_c5))"
  by code_simp

lemma c5_turn2:
  "(case fold_err (fd_day (build_ctx remdups db_c5) 1) [739512] (init_gen_state db_c5) of
      Inl err \<Rightarrow> False
    | Inr gs_day \<Rightarrow>
       (case fold_err (fd_variant_step (build_ctx remdups db_c5) 1 739513) [hd FD_VARIANTS]
           (fd_emp_ids (build_ctx remdups db_c5), gs_day) of
          Inl err \<Rightarrow> False
        | Inr (pool, gs) \<Rightarrow>
           fd_selected (build_ctx remdups db_c5) 1 739513 ''PM'' pool gs = Inr [2]))"
  by code_simp

lemma c5_variants:
  "FD_VARIANTS = [hd FD_VARIANTS] @ (''PM'', [pm_early, pm_late]) # [last FD_VARIANTS]"
  by (simp add: FD_VARIANTS_def pm_early_def pm_late_def)

lemma c5_names:
  "emp_name_get (build_ctx remdups db_c5) 1 = ''Cindy''"
  "emp_name_get (build_ctx remdups db_c5) 2 = ''Ryan''"
  by code_simp+

theorem C5_stagger_placement_witness:
  "\<exists>gs_end. fd_pass (build_ctx remdups db_c5) wk1 (init_gen_state db_c5) = Inr gs_end \<and>
     value_on (gs_db gs_end) 1 1 739512 = Some pm_early \<and>
     value_on (gs_db gs_end) 1 2 739512 = Some pm_late \<and>
     value_on (gs_db gs_end) 1 2 739513 = Some pm_late"
proof -
  let ?ctx = "build_ctx remdups db_c5"
  let ?gs0 = "init_gen_state db_c5"
  from c5_turn1 obtain gs_end where p: "fd_pass ?ctx wk1 ?gs0 = Inr gs_end"
    by (cases "fd_pass ?ctx wk1 ?gs0") auto
  from c5_turn1 obtain pool gs where
    t1: "fold_err (fd_variant_step ?ctx (w_id wk1) 739512) [hd FD_VARIANTS] (fd_emp_ids ?ctx, ?gs0)
           = Inr (pool, gs)" and
    s1: "fd_selected ?ctx (w_id wk1) 739512 ''PM'' pool gs = Inr [1, 2]"
    by (auto simp: wk1_def split: sum.splits)
  from c5_turn2 obtain gs_day pool2 gs2 where
    d2: "fold_err (fd_day ?ctx (w_id wk1)) [739512] ?gs0 = Inr gs_day" and
    t2: "fold_err (fd_variant_step ?ctx (w_id wk1) 739513) [hd FD_VARIANTS] (fd_emp_ids ?ctx, gs_day)
           = Inr (pool2, gs2)" and
    s2: "fd_selected ?ctx (w_id wk1) 739513 ''PM'' pool2 gs2 = Inr [2]"
    by (auto simp: wk1_def split: sum.splits)
  have days1: "daterange (w_start_date wk1) 7 =
                 [] @ 739512 # [739513, 739514, 739515, 739516, 739517, 739518]"
    by (simp add: daterange_def wk1_def upt_conv_Cons)
  have days2: "daterange (w_start_date wk1) 7 =
                 [739512] @ 739513 # [739514, 739515, 739516, 739517, 739518]"
    by (simp add: daterange_def wk1_def upt_conv_Cons)
  have start: "fold_err (fd_day ?ctx (w_id wk1)) [] ?gs0 = Inr ?gs0" by simp
  have ranks: "seniority_rank ?ctx 1 < seniority_rank ?ctx 2"
    by (simp add: seniority_rank_def c5_names SENIORITY_ORDER_def)
  from C5_stagger_placement[OF days1 start c5_variants t1 s1 p, of 1 2] ranks
  have "value_on (gs_db gs_end) 1 1 739512 = Some pm_early \<and>
        value_on (gs_db gs_end) 1 2 739512 = Some pm_late"
    by (simp add: wk1_def)
  moreover from C5_stagger_placement[OF days2 d2 c5_variants t2 s2 p, of 1 2] c5_names
  have "value_on (gs_db gs_end) 1 2 739513 = Some pm_late"
    by (simp add: wk1_def)
  ultimately show ?thesis using p by blast
qed

subsection \<open>C6: leave synchronisation\<close>

text \<open>
  Claim C6. For a week that exists, leave synchronisation returns a state on which a second
  synchronisation changes nothing; in that state every employee's row of the week on a date
  covered by an approved leave request holds "TIME OFF"; and when the generator is run on
  that state (from any start week) and the week is synchronised again, the same rows hold
  "TIME OFF" again, whatever the generator wrote.
\<close>

theorem C6_leave_sync:
  assumes "get_week s w = Some wk"
  shows "\<exists>s1. sync_timeoff_to_assignments w s = Inr s1 \<and>
              sync_timeoff_to_assignments w s1 = Inr s1 \<and>
              synced_from s w (daterange (w_start_date wk) 7) (db_employees s) s1 \<and>
              (\<forall>set_order start_week_id s2.
                  generate_4_week_schedule set_order start_week_id s1 = Inr s2 \<longrightarrow>
                  (\<exists>s3. sync_timeoff_to_assignments w s2 = Inr s3 \<and>
                        synced_from s w (daterange (w_start_date wk) 7) (db_employees s) s3))"
proof -
  let ?days = "daterange (w_start_date wk) 7"
  let ?s1 = "fold (sync_emp w ?days) (db_employees s) s"
  have s1: "sync_timeoff_to_assignments w s = Inr ?s1" using assms by (rule sync_Inr)
  have idem: "sync_timeoff_to_assignments w ?s1 = Inr ?s1"
    using assms s1 by (rule sync_idempotent)
  have post1: "synced_from s w ?days (db_employees s) ?s1"
    using assms s1 by (rule sync_post)
  have ev1: "evolves s ?s1" using s1 by (rule evolves_sync)
  have "\<exists>s3. sync_timeoff_to_assignments w s2 = Inr s3 \<and>
             synced_from s w ?days (db_employees s) s3"
    if g: "generate_4_week_schedule set_order start_week_id ?s1 = Inr s2"
    for set_order start_week_id s2
  proof -
    have ev: "evolves s s2" using ev1 evolves_generate[OF g] by (rule evolves_trans)
    then have wk2: "get_week s2 w = Some wk" using assms by (rule evolves_get_week)
    let ?s3 = "fold (sync_emp w ?days) (db_employees s2) s2"
    have s3: "sync_timeoff_to_assignments w s2 = Inr ?s3" using wk2 by (rule sync_Inr)
    have "synced_from s2 w ?days (db_employees s2) ?s3" using wk2 s3 by (rule sync_post)
    with ev have "synced_from s w ?days (db_employees s) ?s3" by (rule synced_from_mono)
    with s3 show ?thesis by blast
  qed
  with s1 idem post1 show ?thesis by blast
qed

theorem C6_leave_sync_witness:
  "sync_timeoff_to_assignments 1 db_demo = Inr db_demo \<and>
   value_on db_demo 1 1 739514 = Some TIME_OFF_LABEL \<and>
   (\<exists>s3. sync_timeoff_to_assignments 1 db_demo_out = Inr s3 \<and>
         value_on s3 1 1 739514 = Some TIME_OFF_LABEL)"
proof -
  from C6_leave_sync[OF demo_week] demo_synced demo_generated
  obtain s3 where s3: "sync_timeoff_to_assignments 1 db_demo_out = Inr s3"
    and post: "synced_from db_demo 1 (daterange 739512 7) (db_employees db_demo) db_demo"
      "synced_from db_demo 1 (daterange 739512 7) (db_employees db_demo) s3"
    by fastforce
  have emp: "mk_emp 1 ''Cindy'' 2 None \<in> set (db_employees db_demo)"
    by (simp add: db_demo_def)
  have d: "739514 \<in> set (daterange 739512 7)"
    by (simp add: daterange_def upt_conv_Cons)
  have ap: "has_approved_timeoff (e_name (mk_emp 1 ''Cindy'' 2 None)) 739514 db_demo"
    by (simp add: has_approved_timeoff_def db_demo_def mk_emp_def)
  have ex: "value_on db_demo 1 (e_id (mk_emp 1 ''Cindy'' 2 None)) 739514 \<noteq> None"
    by (simp add: value_on_def get_assignment_def db_demo_def mk_emp_def mk_row_def)
  from post emp d ap ex
  have "value_on db_demo 1 (e_id (mk_emp 1 ''Cindy'' 2 None)) 739514 = Some TIME_OFF_LABEL"
    "value_on s3 1 (e_id (mk_emp 1 ''Cindy'' 2 None)) 739514 = Some TIME_OFF_LABEL"
    unfolding synced_from_def by blast+
  with s3 demo_synced show ?thesis by (simp add: mk_emp_def)
qed

subsection \<open>C7: the dismissed flag\<close>

text \<open>
  Claim C7, amended. In the candidate scan of a Front Desk variant and in the candidate
  scan of a Breakfast Bar shift, the dismissed flag of a row is set exactly for the workers
  of the pool that are still unassigned on the date, are not withheld from the scan, pass
  the availability and rest checks of the slot and have a leave request covering the date,
  approved or not; every other flag keeps its value. (The Shuttle scan is left out.)
\<close>

theorem C7_dismissed_flag:
  "(fold_err (fd_cand_step ctx w d variant) pool ([], gs) = Inr (cand, gs') \<longrightarrow>
      (\<forall>w' e' d'. dismissed_on (gs_db gs') w' e' d' =
          map_option (\<lambda>b. b \<or> (w' = w \<and> d' = d \<and> e' \<in> set pool \<and>
                                fd_dismiss_cond ctx (gs_db gs) w d variant e'))
            (dismissed_on (gs_db gs) w' e' d'))) \<and>
   (fold (dept_cand_step ctx w reserved ''Breakfast Bar'' d shift) pool2 ([], s) = (cand2, s') \<longrightarrow>
      (\<forall>w' e' d'. dismissed_on s' w' e' d' =
          map_option (\<lambda>b. b \<or> (w' = w \<and> d' = d \<and> e' \<in> set pool2 \<and>
                                bb_dismiss_cond ctx reserved s w d shift e'))
            (dismissed_on s w' e' d')))"
  using fd_scan_dismissed[of ctx w d variant pool "[]" gs cand gs']
    bb_scan_dismissed[of ctx w reserved d shift pool2 "[]" s cand2 s']
  by blast

lemma demo_scan_runs:
  "\<not> isl (fold_err (fd_cand_step (build_ctx remdups db_demo) 1 739514 ''AM'') [1]
            ([], init_gen_state (reset_week 1 db_demo)))"
  by code_simp

lemma demo_scan_cond:
  "fd_dismiss_cond (build_ctx remdups db_demo) (reset_week 1 db_demo) 1 739514 ''AM'' 1"
  "dismissed_on (reset_week 1 db_demo) 1 1 739514 = Some False"
  "has_approved_timeoff ''Cindy'' 739514 db_demo"
  by code_simp+

theorem C7_dismissed_flag_witness:
  "\<exists>cand gs'.
     fold_err (fd_cand_step (build_ctx remdups db_demo) 1 739514 ''AM'') [1]
       ([], init_gen_state (reset_week 1 db_demo)) = Inr (cand, gs') \<and>
     fd_dismiss_cond (build_ctx remdups db_demo) (reset_week 1 db_demo) 1 739514 ''AM'' 1 \<and>
     dismissed_on (reset_week 1 db_demo) 1 1 739514 = Some False \<and>
     dismissed_on (gs_db gs') 1 1 739514 = Some True \<and>
     dismissed_on (snd (fold (dept_cand_step (build_ctx remdups db_demo) 1 (\<lambda>d. None)
        ''Breakfast Bar'' 739514 ''x'') [] ([], db_demo))) 1 1 739514 = dismissed_on db_demo 1 1 739514"
proof -
  from demo_scan_runs obtain cand gs' where
    run: "fold_err (fd_cand_step (build_ctx remdups db_demo) 1 739514 ''AM'') [1]
       ([], init_gen_state (reset_week 1 db_demo)) = Inr (cand, gs')"
    by (metis isl_def old.prod.exhaust sum.collapse(2))
  have gs0: "gs_db (init_gen_state (reset_week 1 db_demo)) = reset_week 1 db_demo"
    by (simp add: init_gen_state_def)
  have bb: "fold (dept_cand_step (build_ctx remdups db_demo) 1 (\<lambda>d. None)
        ''Breakfast Bar'' 739514 ''x'') [] ([], db_demo) = ([], db_demo)"
    by simp
  from C7_dismissed_flag[of "build_ctx remdups db_demo" 1 739514 "''AM''" "[1]"
      "init_gen_state (reset_week 1 db_demo)" cand gs' "\<lambda>d. None" "''x''" "[]" db_demo "[]" db_demo]
    run bb
  have "dismissed_on (gs_db gs') 1 1 739514 =
        map_option (\<lambda>b. b \<or> (1 \<in> set [1::int] \<and>
            fd_dismiss_cond (build_ctx remdups db_demo) (reset_week 1 db_demo) 1 739514 ''AM'' 1))
          (dismissed_on (reset_week 1 db_demo) 1 1 739514)"
    unfolding gs0 by simp
  with demo_scan_cond have "dismissed_on (gs_db gs') 1 1 739514 = Some True" by simp
  with run demo_scan_cond bb show ?thesis by auto
qed

text \<open>
  Claim C7 as stated fails: the only leave request of the database is approved, the worker
  is dropped for it in the Front Desk scan of that Saturday, and the generated week carries
  the dismissed flag on that row.
\<close>

theorem C7_counterexample:
  "generate_4_week_schedule remdups 1 db_demo = Inr db_demo_out \<and>
   dismissed_on db_demo_out 1 1 739514 = Some True \<and>
   has_approved_timeoff ''Cindy'' 739514 db_demo \<and>
   \<not> list_ex (\<lambda>t. \<not> t_approved t) (db_timeoff db_demo)"
proof -
  have "dismissed_on db_demo_out 1 1 739514 = Some True"
    by (simp add: dismissed_on_def get_assignment_def db_demo_out_def mk_row_def)
  moreover have "\<not> list_ex (\<lambda>t. \<not> t_approved t) (db_timeoff db_demo)"
    by (simp add: db_demo_def)
  ultimately show ?thesis using demo_generated demo_scan_cond(3) by simp
qed

subsection \<open>C4: reservation for the Front Desk\<close>

lemma reserve_fold_eq:
  "fold (reserve_step ctx s w) ds m d =
     (if d \<in> set ds \<and> fd_missing_on ctx s w d \<and> reserve_on ctx s w d \<noteq> []
      then Some (reserve_on ctx s w d) else m d)"
  by (induction ds arbitrary: m) (auto simp: reserve_step_def Let_def)

lemma reserve_on_iff:
  "eid \<in> set (reserve_on ctx s w d) \<longleftrightarrow>
     eid \<in> set (fd_emp_ids ctx) \<and> value_on s w eid d = Some ''Set''"
  by (auto simp: reserve_on_def value_on_def split: option.splits)

lemma is_reserved_iff:
  "is_reserved (reserved_fd_by_date ctx s wk) d eid \<longleftrightarrow>
     d \<in> set (daterange (w_start_date wk) 7) \<and> fd_missing_on ctx s (w_id wk) d \<and>
     eid \<in> set (fd_emp_ids ctx) \<and> value_on s (w_id wk) eid d = Some ''Set''"
proof (cases "reserve_on ctx s (w_id wk) d = []")
  case True
  then have "eid \<notin> set (reserve_on ctx s (w_id wk) d)" by simp
  then have "\<not> (eid \<in> set (fd_emp_ids ctx) \<and> value_on s (w_id wk) eid d = Some ''Set'')"
    by (simp add: reserve_on_iff)
  with True show ?thesis
    by (simp add: is_reserved_def reserved_fd_by_date_def reserve_fold_eq)
next
  case False
  then show ?thesis
    using reserve_on_iff[of eid ctx s "w_id wk" d]
    by (auto simp: is_reserved_def reserved_fd_by_date_def reserve_fold_eq)
qed

lemma dept_cand_step_unreserved:
  "\<not> is_reserved reserved d eid \<Longrightarrow>
   dept_cand_step ctx w reserved role d shift eid st =
   dept_cand_step ctx w (\<lambda>d. None) role d shift eid st"
  by (cases st) (simp add: dept_cand_step_def is_reserved_def)

text \<open>
  Claim C4. Let \<open>gs1\<close> be the state after the Front Desk pass of a week and \<open>reserved\<close>
  the reservation computed from it. If on a day of the week some Front Desk variant has
  fewer than two workers, then a Front-Desk-capable worker whose value that day is "Set" is
  reserved for that day, is in no candidate list of that day in the Breakfast Bar and
  Shuttle passes, and still holds "Set" after the Breakfast Bar pass and after the Shuttle
  pass. The reservation is for that date only: a worker is reserved on a date exactly when
  that date is a day of the week with a short variant and the worker is Front-Desk-capable
  and holds "Set" on that date; and for a worker who is not reserved on a date, the
  candidate scans of that date run as they do with no reservation at all.
\<close>

theorem C4_reservation:
  assumes "d \<in> set (daterange (w_start_date wk) 7)"
    and "fd_missing_on ctx (gs_db gs1) (w_id wk) d"
    and "eid \<in> set (fd_emp_ids ctx)"
    and "value_on (gs_db gs1) (w_id wk) eid d = Some ''Set''"
    and "reserved = reserved_fd_by_date ctx (gs_db gs1) wk"
    and "bb_pass ctx wk reserved gs1 = Inr gs2"
    and "sh_pass ctx wk reserved gs2 = Inr gs3"
  shows "is_reserved reserved d eid \<and>
         eid \<notin> set (fst (fold (dept_cand_step ctx (w_id wk) reserved role d shift) pool ([], s))) \<and>
         value_on (gs_db gs2) (w_id wk) eid d = Some ''Set'' \<and>
         value_on (gs_db gs3) (w_id wk) eid d = Some ''Set'' \<and>
         (\<forall>d' e'. is_reserved reserved d' e' \<longleftrightarrow>
            d' \<in> set (daterange (w_start_date wk) 7) \<and>
            fd_missing_on ctx (gs_db gs1) (w_id wk) d' \<and>
            e' \<in> set (fd_emp_ids ctx) \<and>
            value_on (gs_db gs1) (w_id wk) e' d' = Some ''Set'') \<and>
         (\<forall>d' e' st. \<not> is_reserved reserved d' e' \<longrightarrow>
            dept_cand_step ctx (w_id wk) reserved role d' shift e' st =
            dept_cand_step ctx (w_id wk) (\<lambda>d. None) role d' shift e' st)"
proof -
  have r: "is_reserved reserved d eid"
    unfolding assms(5) using assms(1-4) by (rule reserved_hit)
  have c: "eid \<notin> set (fst (fold (dept_cand_step ctx (w_id wk) reserved role d shift) pool ([], s)))"
    using r by (rule dept_cand_fold_reserved) simp
  have v2: "value_on (gs_db gs2) (w_id wk) eid d = Some ''Set''"
    using dept_pass_reserved[OF assms(6)[unfolded bb_pass_def] r] assms(4) by simp
  have v3: "value_on (gs_db gs3) (w_id wk) eid d = Some ''Set''"
    using dept_pass_reserved[OF assms(7)[unfolded sh_pass_def] r] v2 by simp
  have only: "\<forall>d' e'. is_reserved reserved d' e' \<longleftrightarrow>
            d' \<in> set (daterange (w_start_date wk) 7) \<and>
            fd_missing_on ctx (gs_db gs1) (w_id wk) d' \<and>
            e' \<in> set (fd_emp_ids ctx) \<and>
            value_on (gs_db gs1) (w_id wk) e' d' = Some ''Set''"
    unfolding assms(5) by (simp add: is_reserved_iff)
  have free: "\<forall>d' e' st. \<not> is_reserved reserved d' e' \<longrightarrow>
            dept_cand_step ctx (w_id wk) reserved role d' shift e' st =
            dept_cand_step ctx (w_id wk) (\<lambda>d. None) role d' shift e' st"
    by (simp add: dept_cand_step_unreserved)
  from r c v2 v3 only free show ?thesis by blast
qed

lemma c4_runs:
  "(case fd_pass (build_ctx remdups db_c4) wk1 (init_gen_state db_c4) of
      Inl err \<Rightarrow> False
    | Inr gs1 \<Rightarrow>
        fd_missing_on (build_ctx remdups db_c4) (gs_db gs1) 1 739512 \<and>
        value_on (gs_db gs1) 1 1 739512 = Some ''Set'' \<and>
        rest_ok (gs_db gs1) 1 739512 ''Shuttle'' sh_am \<and>
        \<not> fd_missing_on (build_ctx remdups db_c4) (gs_db gs1) 1 739513 \<and>
        value_on (gs_db gs1) 1 1 739513 = Some ''Set'' \<and>
        (case bb_pass (build_ctx remdups db_c4) wk1
                (reserved_fd_by_date (build_ctx remdups db_c4) (gs_db gs1) wk1) gs1 of
           Inl err \<Rightarrow> False
         | Inr gs2 \<Rightarrow>
             (case sh_pass (build_ctx remdups db_c4) wk1
                     (reserved_fd_by_date (build_ctx remdups db_c4) (gs_db gs1) wk1) gs2 of
                Inl err \<Rightarrow> False
              | Inr gs3 \<Rightarrow> value_on (gs_db gs3) 1 1 739513 = Some sh_am)))"
  by code_simp

lemma c4_facts:
  "1 \<in> set (fd_emp_ids (build_ctx remdups db_c4))"
  "1 \<in> set (sh_emp_ids (build_ctx remdups db_c4))"
  "is_available 1 ''Shuttle'' sh_am 739512 (build_ctx remdups db_c4)"
  "\<not> has_any_timeoff ''Cindy'' 739512 db_c4"
  by code_simp+

theorem C4_reservation_witness:
  "\<exists>gs1 gs2 gs3.
     fd_pass (build_ctx remdups db_c4) wk1 (init_gen_state db_c4) = Inr gs1 \<and>
     bb_pass (build_ctx remdups db_c4) wk1
       (reserved_fd_by_date (build_ctx remdups db_c4) (gs_db gs1) wk1) gs1 = Inr gs2 \<and>
     sh_pass (build_ctx remdups db_c4) wk1
       (reserved_fd_by_date (build_ctx remdups db_c4) (gs_db gs1) wk1) gs2 = Inr gs3 \<and>
     1 \<in> set (sh_emp_ids (build_ctx remdups db_c4)) \<and>
     is_available 1 ''Shuttle'' sh_am 739512 (build_ctx remdups db_c4) \<and>
     rest_ok (gs_db gs1) 1 739512 ''Shuttle'' sh_am \<and>
     \<not> has_any_timeoff ''Cindy'' 739512 db_c4 \<and>
     value_on (gs_db gs3) 1 1 739512 = Some ''Set'' \<and>
     \<not> is_reserved (reserved_fd_by_date (build_ctx remdups db_c4) (gs_db gs1) wk1) 739513 1 \<and>
     value_on (gs_db gs3) 1 1 739513 = Some sh_am"
proof -
  let ?ctx = "build_ctx remdups db_c4"
  from c4_runs obtain gs1 gs2 gs3 where
    f: "fd_pass ?ctx wk1 (init_gen_state db_c4) = Inr gs1" and
    m: "fd_missing_on ?ctx (gs_db gs1) 1 739512" and
    v: "value_on (gs_db gs1) 1 1 739512 = Some ''Set''" and
    ro: "rest_ok (gs_db gs1) 1 739512 ''Shuttle'' sh_am" and
    nm: "\<not> fd_missing_on ?ctx (gs_db gs1) 1 739513" and
    b: "bb_pass ?ctx wk1 (reserved_fd_by_date ?ctx (gs_db gs1) wk1) gs1 = Inr gs2" and
    s: "sh_pass ?ctx wk1 (reserved_fd_by_date ?ctx (gs_db gs1) wk1) gs2 = Inr gs3" and
    fri: "value_on (gs_db gs3) 1 1 739513 = Some sh_am"
    by (auto split: sum.splits)
  have d: "739512 \<in> set (daterange (w_start_date wk1) 7)"
    by (simp add: daterange_def wk1_def upt_conv_Cons)
  have w: "w_id wk1 = 1" by (simp add: wk1_def)
  from C4_reservation[of 739512 wk1 ?ctx gs1 1 "reserved_fd_by_date ?ctx (gs_db gs1) wk1" gs2 gs3,
      OF d] m v b s c4_facts nm
  have "value_on (gs_db gs3) 1 1 739512 = Some ''Set'' \<and>
        \<not> is_reserved (reserved_fd_by_date ?ctx (gs_db gs1) wk1) 739513 1"
    unfolding w by simp
  with f b s c4_facts ro fri show ?thesis by blast
qed

subsection \<open>C2: the weekly cap\<close>

text \<open>
  C2, as stated, does not hold. The cap is looked up "in the context of a role"
  (\<open>_effective_max_for_role(emp_info, eid, role)\<close> with the department being staffed, not
  the worker's own department), and each pass compares it with the worker's count over all
  departments. The worker of \<open>db_demo\<close> belongs to the Shuttle department (default cap 4),
  has no explicit maximum and holds a secondary Front Desk role. The Front Desk pass runs
  first, with the Front Desk default 5, and gives the worker five shifts in the first week:
  one more than the worker's cap as a Shuttle worker.
\<close>

theorem C2_counterexample:
  "generate_4_week_schedule remdups 1 db_demo = Inr db_demo_out \<and>
   map_option ei_role (emp_info (build_ctx remdups db_demo) 1) = Some ''Shuttle'' \<and>
   map_option ei_max_per_week (emp_info (build_ctx remdups db_demo) 1) = Some None \<and>
   effective_max_for_role (build_ctx remdups db_demo) 1 ''Shuttle'' = Inr (Some 4) \<and>
   week_count db_demo_out 1 1 = 5"
proof -
  have "map_option ei_role (emp_info (build_ctx remdups db_demo) 1) = Some ''Shuttle''"
    "map_option ei_max_per_week (emp_info (build_ctx remdups db_demo) 1) = Some None"
    "effective_max_for_role (build_ctx remdups db_demo) 1 ''Shuttle'' = Inr (Some 4)"
    "week_count db_demo_out 1 1 = 5"
    by code_simp+
  with demo_generated show ?thesis by blast
qed

text \<open>
  C2, amended: after a generation that returns, each of the four weeks of the horizon
  exists, and the number of active values (neither "Set" nor "TIME OFF") a worker holds in
  the rows of that week is at most \<open>week_cap\<close>: the explicit maximum if there is one (0 if
  it is negative); otherwise unbounded if the worker is in the Breakfast Bar pool, 5 if in
  the Front Desk pool, and 4 if in the Shuttle pool only.
\<close>

theorem C2_weekly_cap:
  assumes "generate_4_week_schedule set_order start_week_id s = Inr s'"
    and "get_week s start_week_id = Some base_week"
    and "k \<in> {0, 1, 2, 3}"
  shows "\<exists>wk. find (\<lambda>w. w_start_date w = w_start_date base_week + 7 * k) (db_weeks s') = Some wk \<and>
           (case week_cap (build_ctx set_order s) eid of
              None \<Rightarrow> True
            | Some c \<Rightarrow> int (week_count s' (w_id wk) eid) \<le> c)"
proof -
  from assms(1,2) have
    "fold_err (\<lambda>off. gen_week (build_ctx set_order s) (w_start_date base_week + 7 * off))
       [0, 1, 2, 3] s = Inr s'"
    by (simp add: generate_4_week_schedule_def generate_weeks_def)
  from gen_weeks_cap[OF this, of k eid] assms(3) show ?thesis
    by (simp add: bounded_week_def cap_ok_def)
qed

theorem C2_weekly_cap_witness:
  "week_cap (build_ctx remdups db_demo) 1 = Some 5 \<and>
   (\<exists>wk. find (\<lambda>w. w_start_date w = 739512 + 7 * 1) (db_weeks db_demo_out) = Some wk \<and>
         int (week_count db_demo_out (w_id wk) 1) \<le> 5)"
proof -
  have c: "week_cap (build_ctx remdups db_demo) 1 = Some 5" by code_simp
  have k: "(1::int) \<in> {0, 1, 2, 3}" by simp
  from C2_weekly_cap[OF demo_generated demo_week k, of 1] c show ?thesis by simp
qed

subsection \<open>C10: the toggle endpoint never answers\<close>

text \<open>
  Claim C10. A call of \<open>/timeoff/toggle\<close> for an existing request always ends in an
  exception. When the baseline week exists (the application creates it at start-up and never
  deletes it), the exception comes after the commit: the request carries the new approval
  flag, and on every day of the baseline week inside the request's range the row of the
  worker holds "TIME OFF" after an approval, and "Set" instead of "TIME OFF" after a
  withdrawal. Whenever the coverage snapshot of the committed state returns, it has eleven
  components, unpacking it into ten names fails, and the exception is that ValueError; the
  snapshot does return when the rows of the week have dates of the week.
\<close>

theorem C10_toggle_raises:
  assumes "find (\<lambda>t. t_id t = tid) (db_timeoff s) = Some to"
    and "toggle_timeoff tid approved s = (s', r)"
  shows "isl r \<and>
     (\<forall>wk. find (\<lambda>w. w_start_date w = BASELINE) (db_weeks s) = Some wk \<longrightarrow>
        find (\<lambda>t. t_id t = tid) (db_timeoff s') = Some (to\<lparr>t_approved := approved\<rparr>) \<and>
        (\<forall>emp d v.
           find (\<lambda>e. e_name e = t_name to) (db_employees s) = Some emp \<and>
           d \<in> set (daterange (w_start_date wk) 7) \<and>
           t_from_date to \<le> d \<and> d \<le> t_to_date to \<and>
           value_on s (w_id wk) (e_id emp) d = Some v \<longrightarrow>
           value_on s' (w_id wk) (e_id emp) d =
             Some (if approved then TIME_OFF_LABEL
                   else if v = TIME_OFF_LABEL then ''Set'' else v)) \<and>
        (\<forall>snap. coverage_snapshot_db (w_id wk) s' = Inr snap \<longrightarrow>
           length snap = 11 \<and> unpack 10 snap = Inl ValueError \<and> r = Inl ValueError) \<and>
        (get_week s (w_id wk) = Some wk \<and> week_rows_in_week s wk \<longrightarrow> r = Inl ValueError))"
proof -
  have raises: "isl r"
    using toggle_timeoff_raises[OF assms(1), of approved] assms(2) by simp
  have committed:
    "find (\<lambda>t. t_id t = tid) (db_timeoff s') = Some (to\<lparr>t_approved := approved\<rparr>) \<and>
     (\<forall>emp d v.
           find (\<lambda>e. e_name e = t_name to) (db_employees s) = Some emp \<and>
           d \<in> set (daterange (w_start_date wk) 7) \<and>
           t_from_date to \<le> d \<and> d \<le> t_to_date to \<and>
           value_on s (w_id wk) (e_id emp) d = Some v \<longrightarrow>
           value_on s' (w_id wk) (e_id emp) d =
             Some (if approved then TIME_OFF_LABEL
                   else if v = TIME_OFF_LABEL then ''Set'' else v)) \<and>
     (\<forall>snap. coverage_snapshot_db (w_id wk) s' = Inr snap \<longrightarrow>
           length snap = 11 \<and> unpack 10 snap = Inl ValueError \<and> r = Inl ValueError) \<and>
     (get_week s (w_id wk) = Some wk \<and> week_rows_in_week s wk \<longrightarrow> r = Inl ValueError)"
    if wk: "find (\<lambda>w. w_start_date w = BASELINE) (db_weeks s) = Some wk" for wk
  proof -
    from toggle_timeoff_week[OF assms(1) wk, of approved] assms(2)
    have s': "s' = toggle_committed tid approved to wk s"
      and r: "r = (case coverage_snapshot_db (w_id wk) s' of
              Inl err \<Rightarrow> Inl err
            | Inr snap \<Rightarrow> (case unpack 10 snap of Inl err \<Rightarrow> Inl err | Inr names \<Rightarrow> Inl NameError))"
      by simp_all
    have flag: "find (\<lambda>t. t_id t = tid) (db_timeoff s') = Some (to\<lparr>t_approved := approved\<rparr>)"
      unfolding s' toggle_committed_frame using assms(1) by (simp add: find_update_first_same)
    have vals: "value_on s' (w_id wk) (e_id emp) d =
             Some (if approved then TIME_OFF_LABEL
                   else if v = TIME_OFF_LABEL then ''Set'' else v)"
      if "find (\<lambda>e. e_name e = t_name to) (db_employees s) = Some emp"
        "d \<in> set (daterange (w_start_date wk) 7)"
        "t_from_date to \<le> d" "d \<le> t_to_date to" "value_on s (w_id wk) (e_id emp) d = Some v"
      for emp d v
      unfolding s' using toggle_committed_value[OF that, of tid approved]
      by (simp add: toggled_value_def)
    have cov: "length snap = 11 \<and> unpack 10 snap = Inl ValueError \<and> r = Inl ValueError"
      if c: "coverage_snapshot_db (w_id wk) s' = Inr snap" for snap
    proof -
      from r c have "r = (case unpack 10 snap of Inl err \<Rightarrow> Inl err | Inr names \<Rightarrow> Inl NameError)"
        by simp
      with coverage_length[OF c] unpack_snapshot[OF c] show ?thesis by simp
    qed
    have wf: "r = Inl ValueError" if "get_week s (w_id wk) = Some wk" "week_rows_in_week s wk"
    proof -
      from that(1) have g: "get_week s' (w_id wk) = Some wk"
        by (simp add: s' get_week_def toggle_committed_frame)
      have "week_rows_in_week s' wk"
        using that(2) week_rows_keys_cong[of s' s wk] by (simp add: s' toggle_committed_frame)
      from coverage_total[OF g this] cov show ?thesis by blast
    qed
    from flag vals cov wf show ?thesis by blast
  qed
  from raises committed show ?thesis by blast
qed

theorem C10_toggle_raises_witness:
  "\<exists>s'. toggle_timeoff 1 False db_demo = (s', Inl ValueError) \<and>
     map_option t_approved (find (\<lambda>t. t_id t = 1) (db_timeoff s')) = Some False \<and>
     value_on db_demo 1 1 739514 = Some TIME_OFF_LABEL \<and>
     value_on s' 1 1 739514 = Some ''Set''"
proof -
  let ?to = "\<lparr>t_id = 1, t_name = ''Cindy'', t_role = ''Shuttle'', t_from_date = 739514,
          t_to_date = 739514, t_approved = True, t_vacation = False\<rparr>"
  let ?emp = "mk_emp 1 ''Cindy'' 2 None"
  obtain s' r where res: "toggle_timeoff 1 False db_demo = (s', r)"
    by (cases "toggle_timeoff 1 False db_demo")
  have t: "find (\<lambda>t. t_id t = 1) (db_timeoff db_demo) = Some ?to" by code_simp
  have w: "find (\<lambda>w. w_start_date w = BASELINE) (db_weeks db_demo) = Some wk1" by code_simp
  have e: "find (\<lambda>e. e_name e = t_name ?to) (db_employees db_demo) = Some ?emp" by code_simp
  have g: "get_week db_demo (w_id wk1) = Some wk1" by code_simp
  have wf: "week_rows_in_week db_demo wk1" by code_simp
  have d: "739514 \<in> set (daterange (w_start_date wk1) 7)" by code_simp
  have v: "value_on db_demo (w_id wk1) (e_id ?emp) 739514 = Some TIME_OFF_LABEL" by code_simp
  have i: "w_id wk1 = 1" "e_id ?emp = 1" by (simp_all add: wk1_def mk_emp_def)
  from C10_toggle_raises[OF t res] w e g wf d v
  have "r = Inl ValueError"
    "find (\<lambda>t. t_id t = 1) (db_timeoff s') = Some (?to\<lparr>t_approved := False\<rparr>)"
    "value_on s' (w_id wk1) (e_id ?emp) 739514 = Some ''Set''"
    by auto
  with res v show ?thesis unfolding i by auto
qed

subsection \<open>C8: manual assignment against approved leave\<close>




subsection \<open>C1: the rest rule\<close>

text \<open>
  Claim C1. Take a 4-week generation that returns, from a start week that exists, on a
  database with well-formed weeks. For two rows of one worker on consecutive dates among
  the 28 days of the horizon, the later value does not break the rest rule after the
  earlier one: no Front Desk AM shift after a Front Desk PM shift, no Front Desk PM shift
  after a Front Desk Audit shift, no Shuttle AM shift after a Shuttle PM or Crew shift, no
  Shuttle Midday shift after a Crew shift. The two dates need not lie in the same week.
\<close>

theorem C1_rest_rule:
  assumes "generate_4_week_schedule set_order start_week_id s = Inr s'"
    and "get_week s start_week_id = Some base_week"
    and "wf_weeks s"
    and "a1 \<in> set (db_assignments s')" and "a2 \<in> set (db_assignments s')"
    and "a_employee_id a2 = a_employee_id a1" and "a_date a2 = a_date a1 + 1"
    and "w_start_date base_week \<le> a_date a1" and "a_date a2 < w_start_date base_week + 28"
  shows "\<not> bad_pair (a_value a1) (a_value a2)"
proof -
  from generate_rest_rule[OF assms(1,2,3)]
  have wf: "wf_weeks s'"
    and rr: "rest_rule s' (w_start_date base_week) (w_start_date base_week + 28)" by simp_all
  from day_value_row[OF wf assms(4)] day_value_row[OF wf assms(5)] assms(6,7)
  have "day_value s' (a_employee_id a1) (a_date a1) = Some (a_value a1)"
    "day_value s' (a_employee_id a1) (a_date a1 + 1) = Some (a_value a2)" by simp_all
  with rr assms(7,8,9) show ?thesis unfolding rest_rule_def by auto
qed

lemma c1_generated:
  "(case generate_4_week_schedule remdups 1 db_c1 of
      Inl err \<Rightarrow> False
    | Inr s' \<Rightarrow>
        mk_row 1 1 739512 pm_early \<in> set (db_assignments s') \<and>
        mk_row 1 1 739513 ''Set'' \<in> set (db_assignments s'))"
  by code_simp

lemma c1_facts:
  "get_week db_c1 1 = Some wk1"
  "wf_weeks db_c1"
  "is_available 1 ''Front Desk'' ''AM'' 739513 (build_ctx remdups db_c1)"
  "bad_pair pm_early am_early"
  by code_simp+

theorem C1_rest_rule_witness:
  "\<exists>s'. generate_4_week_schedule remdups 1 db_c1 = Inr s' \<and>
     mk_row 1 1 739512 pm_early \<in> set (db_assignments s') \<and>
     mk_row 1 1 739513 ''Set'' \<in> set (db_assignments s') \<and>
     is_available 1 ''Front Desk'' ''AM'' 739513 (build_ctx remdups db_c1) \<and>
     bad_pair pm_early am_early \<and>
     \<not> bad_pair pm_early ''Set''"
proof -
  from c1_generated obtain s' where
    g: "generate_4_week_schedule remdups 1 db_c1 = Inr s'" and
    r1: "mk_row 1 1 739512 pm_early \<in> set (db_assignments s')" and
    r2: "mk_row 1 1 739513 ''Set'' \<in> set (db_assignments s')"
    by (auto split: sum.splits)
  have e: "a_employee_id (mk_row 1 1 739513 ''Set'') = a_employee_id (mk_row 1 1 739512 pm_early)"
    and d: "a_date (mk_row 1 1 739513 ''Set'') = a_date (mk_row 1 1 739512 pm_early) + 1"
    and lo: "w_start_date wk1 \<le> a_date (mk_row 1 1 739512 pm_early)"
    and hi: "a_date (mk_row 1 1 739513 ''Set'') < w_start_date wk1 + 28"
    by (simp_all add: mk_row_def wk1_def)
  from C1_rest_rule[OF g c1_facts(1,2) r1 r2 e d lo hi]
  have "\<not> bad_pair pm_early ''Set''" by (simp add: mk_row_def)
  with g r1 r2 c1_facts show ?thesis by blast
qed

end
